theory Spec2Isabelle
  imports Complex_Main "HOL-Library.Multiset"
begin

section \<open>Data model (src/types/index.ts)\<close>

datatype Suit = Hearts | Diamonds | Clubs | Spades

datatype Rank = R2 | R3 | R4 | R5 | R6 | R7 | R8 | R9 | R10 | RJ | RQ | RK | RA

record Card =
  suit :: Suit
  rank :: Rank

text \<open>The \<open>status\<close> of a user is one of the two string literals \<open>'online'\<close> and \<open>'offline'\<close>.\<close>

datatype Presence = Online | Offline

text \<open>
  \<open>User\<close>: the field \<open>id\<close> is written \<open>id_user\<close> and \<open>status\<close> is written
  \<open>status_user\<close>; the optional \<open>isHost\<close> is \<open>None\<close> when the property is absent.
\<close>

record User =
  id_user :: string
  socketId :: string
  name :: string
  isHost :: "bool option"
  status_user :: Presence

text \<open>\<open>Player extends User\<close>. JavaScript numbers holding counters are modelled as \<open>int\<close>.\<close>

record Player = User +
  hand :: "Card list"
  tricksWon :: int
  agoraUid :: int

record TrickCard =
  playerId :: string
  card :: Card

datatype Status = Waiting | Playing | Finished

text \<open>
  \<open>GameState\<close>: \<open>id\<close> is written \<open>id_game\<close> and \<open>round\<close> is written \<open>round_game\<close>;
  \<open>leadSuit : Suit | null\<close> is an option.
\<close>

record GameState =
  id_game :: string
  players :: "Player list"
  deck :: "Card list"
  currentTrick :: "TrickCard list"
  leadSuit :: "Suit option"
  currentPlayerId :: string
  turnOrder :: "string list"
  round_game :: int
  trickNumber :: int
  status :: Status
  hostId :: string
  maxPlayers :: nat

text \<open>Errors of the JavaScript runtime that the modelled functions can raise.\<close>

datatype error = TypeError | UndefinedPlayerId

section \<open>Utilities (src/game-logic/utils.ts)\<close>

definition allSuits :: "Suit list" where
  "allSuits = [Hearts, Diamonds, Clubs, Spades]"

definition allRanks :: "Rank list" where
  "allRanks = [R2, R3, R4, R5, R6, R7, R8, R9, R10, RJ, RQ, RK, RA]"

fun rankValues :: "Rank \<Rightarrow> int" where
  "rankValues R2 = 2"
| "rankValues R3 = 3"
| "rankValues R4 = 4"
| "rankValues R5 = 5"
| "rankValues R6 = 6"
| "rankValues R7 = 7"
| "rankValues R8 = 8"
| "rankValues R9 = 9"
| "rankValues R10 = 10"
| "rankValues RJ = 11"
| "rankValues RQ = 12"
| "rankValues RK = 13"
| "rankValues RA = 14"

definition getCardValue :: "Card \<Rightarrow> int" where
  "getCardValue c = rankValues (rank c)"

text \<open>
  \<open>Array.prototype.find\<close>: the first element satisfying the predicate, \<open>None\<close> for
  \<open>undefined\<close>.
\<close>

fun find_first :: "('a \<Rightarrow> bool) \<Rightarrow> 'a list \<Rightarrow> 'a option" where
  "find_first P [] = None"
| "find_first P (x # xs) = (if P x then Some x else find_first P xs)"

text \<open>
  \<open>Array.prototype.indexOf\<close>: the index of the first occurrence, \<open>-1\<close> when there is
  none.
\<close>

fun indexOf_from :: "'a list \<Rightarrow> 'a \<Rightarrow> int \<Rightarrow> int" where
  "indexOf_from [] a i = -1"
| "indexOf_from (x # xs) a i = (if x = a then i else indexOf_from xs a (i + 1))"

definition indexOf :: "'a list \<Rightarrow> 'a \<Rightarrow> int" where
  "indexOf xs a = indexOf_from xs a 0"

section \<open>Game rules (src/game-logic/rules.ts)\<close>

subsection \<open>getNextPlayerId\<close>

text \<open>
  \<open>turnOrder[nextIndex]\<close>; with an empty \<open>turnOrder\<close> the remainder is \<open>NaN\<close> and the
  read yields \<open>undefined\<close>, which is \<open>None\<close> here. \<open>currentIndex + 1\<close> is never
  negative, so JavaScript's \<open>%\<close> agrees with \<open>mod\<close>.
\<close>

definition getNextPlayerId :: "GameState \<Rightarrow> string option" where
  "getNextPlayerId gameState =
     (let currentIndex = indexOf (turnOrder gameState) (currentPlayerId gameState) in
      if turnOrder gameState = [] then None
      else
        let nextIndex = (currentIndex + 1) mod int (length (turnOrder gameState)) in
        Some (turnOrder gameState ! nat nextIndex))"

subsection \<open>determineTrickWinner\<close>

text \<open>
  The loop over the trick, carrying \<open>winningCard\<close> and \<open>highestValue\<close>.
\<close>

fun winnerLoop :: "Suit \<Rightarrow> TrickCard list \<Rightarrow> TrickCard option \<Rightarrow> int \<Rightarrow> TrickCard option" where
  "winnerLoop ls [] winningCard highestValue = winningCard"
| "winnerLoop ls (trickCard # rest) winningCard highestValue =
     (if suit (card trickCard) = ls
      then (let cardValue = getCardValue (card trickCard) in
            if cardValue > highestValue
            then winnerLoop ls rest (Some trickCard) cardValue
            else winnerLoop ls rest winningCard highestValue)
      else winnerLoop ls rest winningCard highestValue)"

definition winningTrickCard :: "TrickCard list \<Rightarrow> Suit \<Rightarrow> TrickCard option" where
  "winningTrickCard trick ls = winnerLoop ls trick None (-1)"

text \<open>\<open>winningCard!.playerId\<close> raises a TypeError when \<open>winningCard\<close> is still null.\<close>

definition determineTrickWinner :: "TrickCard list \<Rightarrow> Suit \<Rightarrow> error + string" where
  "determineTrickWinner trick ls =
     (case winningTrickCard trick ls of
        None \<Rightarrow> Inl TypeError
      | Some w \<Rightarrow> Inr (playerId w))"

subsection \<open>Sorting with a comparator\<close>

text \<open>
  \<open>Array.prototype.sort(cmp)\<close> is a stable sort: for the comparators used here (each
  compares a key) its result is the stable arrangement by that key, which insertion from
  the right computes.
\<close>

fun insert_cmp :: "('a \<Rightarrow> 'a \<Rightarrow> int) \<Rightarrow> 'a \<Rightarrow> 'a list \<Rightarrow> 'a list" where
  "insert_cmp cmp x [] = [x]"
| "insert_cmp cmp x (y # ys) = (if cmp x y \<le> 0 then x # y # ys else y # insert_cmp cmp x ys)"

definition sort_cmp :: "('a \<Rightarrow> 'a \<Rightarrow> int) \<Rightarrow> 'a list \<Rightarrow> 'a list" where
  "sort_cmp cmp xs = foldr (insert_cmp cmp) xs []"

text \<open>An array read \<open>xs[i]\<close>, \<open>None\<close> for \<open>undefined\<close>.\<close>

definition nth_opt :: "'a list \<Rightarrow> nat \<Rightarrow> 'a option" where
  "nth_opt xs i = (if i < length xs then Some (xs ! i) else None)"

subsection \<open>shuffleDeck, sortCards, groupHandBySuit (utils.ts)\<close>

text \<open>
  The random source is the sequence of results of \<open>Math.random()\<close>: \<open>rnd k\<close> is the
  result of call number \<open>k\<close>, a number in \<open>[0, 1)\<close>. \<open>valid_random\<close> states that range.
\<close>

definition valid_random :: "(nat \<Rightarrow> real) \<Rightarrow> bool" where
  "valid_random rnd = (\<forall>k. 0 \<le> rnd k \<and> rnd k < 1)"

text \<open>
  The loop \<open>for (i = deck.length - 1; i > 0; i--)\<close>; \<open>k\<close> counts the calls of
  \<open>Math.random()\<close> made so far. The destructuring swap reads both cells before it
  writes them.
\<close>

fun shuffleLoop :: "(nat \<Rightarrow> real) \<Rightarrow> nat \<Rightarrow> nat \<Rightarrow> 'a list \<Rightarrow> 'a list" where
  "shuffleLoop rnd k 0 d = d"
| "shuffleLoop rnd k (Suc i) d =
     (let j = nat \<lfloor>rnd k * real (Suc i + 1)\<rfloor> in
      shuffleLoop rnd (Suc k) i (d[Suc i := d ! j, j := d ! Suc i]))"

definition shuffleDeck :: "(nat \<Rightarrow> real) \<Rightarrow> 'a list \<Rightarrow> 'a list" where
  "shuffleDeck rnd d = shuffleLoop rnd 0 (length d - 1) d"

definition sortCards :: "Card list \<Rightarrow> Card list" where
  "sortCards cards = sort_cmp (\<lambda>a b. getCardValue a - getCardValue b) cards"

text \<open>
  The \<open>Map\<close> keeps its keys in insertion order, so it is an association list over
  \<open>allSuits\<close>.
\<close>

definition pushCard :: "Card \<Rightarrow> (Suit \<times> Card list) list \<Rightarrow> (Suit \<times> Card list) list" where
  "pushCard c suitMap = map (\<lambda>(s, cs). if s = suit c then (s, cs @ [c]) else (s, cs)) suitMap"

definition groupHandBySuit :: "Card list \<Rightarrow> (Suit \<times> Card list) list" where
  "groupHandBySuit h = fold pushCard h (map (\<lambda>s. (s, [])) allSuits)"

subsection \<open>createDeck and dealCards\<close>

definition orderedDeck :: "Card list" where
  "orderedDeck = concat (map (\<lambda>s. map (\<lambda>r. \<lparr>suit = s, rank = r\<rparr>) allRanks) allSuits)"

definition createDeck :: "(nat \<Rightarrow> real) \<Rightarrow> Card list" where
  "createDeck rnd = shuffleDeck rnd orderedDeck"

definition dealStep :: "Card list \<Rightarrow> nat \<Rightarrow> nat \<Rightarrow> Card list list \<Rightarrow> Card list list" where
  "dealStep d numPlayers i hands =
     hands[i mod numPlayers := hands ! (i mod numPlayers) @ [d ! i]]"

definition compareHand :: "Card \<Rightarrow> Card \<Rightarrow> int" where
  "compareHand a b =
     (let suitOrder = indexOf allSuits (suit a) - indexOf allSuits (suit b) in
      if suitOrder \<noteq> 0 then suitOrder else getCardValue b - getCardValue a)"

text \<open>
  \<open>dealLoop d numPlayers bound\<close> is the array \<open>hands\<close> after the loop
  \<open>for (i = 0; i < bound; i++)\<close>, started from \<open>numPlayers\<close> empty hands.
  With \<open>numPlayers = 0\<close> the bound \<open>cardsPerPlayer * numPlayers\<close> is \<open>NaN\<close> and the loop
  does not run; here the bound is \<open>0\<close>, with the same effect.
\<close>

definition dealLoop :: "Card list \<Rightarrow> nat \<Rightarrow> nat \<Rightarrow> Card list list" where
  "dealLoop d numPlayers bound =
     fold (dealStep d numPlayers) [0 ..< bound] (replicate numPlayers [])"

definition dealCards :: "Card list \<Rightarrow> nat \<Rightarrow> Card list list" where
  "dealCards d numPlayers =
     (let cardsPerPlayer = length d div numPlayers;
          hands = dealLoop d numPlayers (cardsPerPlayer * numPlayers)
      in map (sort_cmp compareHand) hands)"

subsection \<open>setupNewGame\<close>

text \<open>
  \<open>turnOrder.push(turnOrder.shift()!)\<close> until the starting player is in front. The
  loop does not end when the id never comes to the front: the result is \<open>None\<close> then.
\<close>

partial_function (option) rotateLoop :: "string list \<Rightarrow> string \<Rightarrow> string list option" where
  "rotateLoop order startingPlayerId =
     (case order of
        [] \<Rightarrow> None
      | x # xs \<Rightarrow> if x = startingPlayerId then Some order
                  else rotateLoop (xs @ [x]) startingPlayerId)"

declare rotateLoop.simps [code]

definition hasTwoOfClubs :: "Player \<Rightarrow> bool" where
  "hasTwoOfClubs p = list_ex (\<lambda>c. suit c = Clubs \<and> rank c = R2) (hand p)"

definition mkPlayer :: "Card list list \<Rightarrow> User \<times> nat \<Rightarrow> Player" where
  "mkPlayer hands entry =
     (case entry of (p, index) \<Rightarrow>
        \<lparr>id_user = id_user p, socketId = socketId p, name = name p, isHost = isHost p,
         status_user = status_user p,
         hand = hands ! index, tricksWon = 0, agoraUid = 1000 + int index\<rparr>)"

text \<open>
  \<open>findHost\<close> is \<open>xs.find(p => p.isHost)\<close>, on users and on players alike.
  \<open>xs.find(p => p.isHost)?.id || xs[0].id\<close>: the host's id when there is a host and
  that id is a non-empty string, else the id of the first element; reading \<open>xs[0].id\<close>
  of an empty list raises a TypeError.
\<close>

definition findHost :: "'a User_scheme list \<Rightarrow> 'a User_scheme option" where
  "findHost xs = find_first (\<lambda>p. isHost p = Some True) xs"

definition hostOrFirst :: "'a User_scheme list \<Rightarrow> error + string" where
  "hostOrFirst xs =
     (let first = (case xs of [] \<Rightarrow> Inl TypeError | p # _ \<Rightarrow> Inr (id_user p)) in
      case findHost xs of
        None \<Rightarrow> first
      | Some h \<Rightarrow> if id_user h \<noteq> [] then Inr (id_user h) else first)"

definition startingPlayer :: "Player list \<Rightarrow> error + string" where
  "startingPlayer ps =
     (case hostOrFirst ps of
        Inl e \<Rightarrow> Inl e
      | Inr startingPlayerId \<Rightarrow>
          (case find_first hasTwoOfClubs ps of
             Some player \<Rightarrow> Inr (id_user player)
           | None \<Rightarrow> Inr startingPlayerId))"

text \<open>
  The result is \<open>None\<close> when the rotation loop does not end, \<open>Some (Inl e)\<close> when an
  error is raised and \<open>Some (Inr g)\<close> when the state \<open>g\<close> is returned.
\<close>

definition setupNewGame ::
  "(nat \<Rightarrow> real) \<Rightarrow> User list \<Rightarrow> string \<Rightarrow> nat \<Rightarrow> (error + GameState) option" where
  "setupNewGame rnd playerList gameId maxP =
     (let d = createDeck rnd;
          hands = dealCards d (length playerList);
          ps = map (mkPlayer hands) (zip playerList [0 ..< length playerList])
      in case startingPlayer ps of
           Inl e \<Rightarrow> Some (Inl e)
         | Inr startingPlayerId \<Rightarrow>
             (case rotateLoop (map id_user ps) startingPlayerId of
                None \<Rightarrow> None
              | Some order \<Rightarrow>
                  (case hostOrFirst playerList of
                     Inl e \<Rightarrow> Some (Inl e)
                   | Inr h \<Rightarrow>
                       Some (Inr \<lparr>id_game = gameId, players = ps, deck = [],
                                  currentTrick = [], leadSuit = None,
                                  currentPlayerId = startingPlayerId, turnOrder = order,
                                  round_game = 1, trickNumber = 1, status = Playing,
                                  hostId = h, maxPlayers = maxP\<rparr>))))"

subsection \<open>isMoveValid\<close>

record MoveResult =
  valid :: bool
  message :: string

fun suitName :: "Suit \<Rightarrow> string" where
  "suitName Hearts = ''hearts''"
| "suitName Diamonds = ''diamonds''"
| "suitName Clubs = ''clubs''"
| "suitName Spades = ''spades''"

definition hasCard :: "Player \<Rightarrow> Card \<Rightarrow> bool" where
  "hasCard player c = list_ex (\<lambda>c'. suit c' = suit c \<and> rank c' = rank c) (hand player)"

definition hasLeadSuit :: "Player \<Rightarrow> Suit \<Rightarrow> bool" where
  "hasLeadSuit player ls = list_ex (\<lambda>c. suit c = ls) (hand player)"

definition isMoveValid :: "GameState \<Rightarrow> string \<Rightarrow> Card \<Rightarrow> MoveResult" where
  "isMoveValid gameState pid c =
     (case find_first (\<lambda>p. id_user p = pid) (players gameState) of
        None \<Rightarrow> \<lparr>valid = False, message = ''Player not found.''\<rparr>
      | Some player \<Rightarrow>
          if currentPlayerId gameState \<noteq> pid
          then \<lparr>valid = False, message = ''It's not your turn.''\<rparr>
          else if \<not> hasCard player c
          then \<lparr>valid = False, message = ''You don't have that card in your hand.''\<rparr>
          else (case leadSuit gameState of
                  Some ls \<Rightarrow>
                    if hasLeadSuit player ls \<and> suit c \<noteq> ls
                    then \<lparr>valid = False,
                          message = ''You must follow suit by playing a '' @ suitName ls @ ''.''\<rparr>
                    else \<lparr>valid = True, message = []\<rparr>
                | None \<Rightarrow> \<lparr>valid = True, message = []\<rparr>))"

subsection \<open>processTrickWin\<close>

text \<open>\<open>winner.tricksWon += 1\<close> on the player that \<open>find\<close> returns, if any.\<close>

fun incrementWinner :: "string \<Rightarrow> Player list \<Rightarrow> Player list" where
  "incrementWinner w [] = []"
| "incrementWinner w (p # ps) =
     (if id_user p = w then p\<lparr>tricksWon := tricksWon p + 1\<rparr> # ps
      else p # incrementWinner w ps)"

text \<open>\<open>gameState.players[0].hand\<close> raises a TypeError when there is no player.\<close>

definition processTrickWin :: "GameState \<Rightarrow> string \<Rightarrow> error + GameState" where
  "processTrickWin gameState winningPlayerId =
     (let ps = incrementWinner winningPlayerId (players gameState);
          nextTrickNumber = trickNumber gameState + 1
      in case ps of
           [] \<Rightarrow> Inl TypeError
         | p0 # _ \<Rightarrow>
             (let isGameOver = (length (hand p0) = 0) in
              Inr (gameState\<lparr>players := ps, currentTrick := [], leadSuit := None,
                     currentPlayerId := winningPlayerId, trickNumber := nextTrickNumber,
                     status := (if isGameOver then Finished else Playing)\<rparr>)))"

section \<open>Session engine (src/index.ts)\<close>

subsection \<open>sanitizeGameStateForPlayer\<close>

definition placeholderCard :: Card where
  "placeholderCard = \<lparr>suit = Spades, rank = R2\<rparr>"

definition sanitizePlayer :: "string \<Rightarrow> Player \<Rightarrow> Player" where
  "sanitizePlayer targetPlayerId player =
     (if id_user player = targetPlayerId then player
      else (let placeholderHand = map (\<lambda>_. placeholderCard) (hand player) in
            player\<lparr>hand := placeholderHand\<rparr>))"

definition sanitizeGameStateForPlayer :: "GameState \<Rightarrow> string \<Rightarrow> GameState" where
  "sanitizeGameStateForPlayer fullState targetPlayerId =
     (let sanitizedPlayers = map (sanitizePlayer targetPlayerId) (players fullState) in
      fullState\<lparr>players := sanitizedPlayers\<rparr>)"

subsection \<open>Turn handling\<close>

text \<open>
  The engine keeps one \<open>GameState\<close> per game id in the \<open>games\<close> registry and mutates
  it in place; the functions here take the registered state of one game and return the
  state registered afterwards. Timers and emissions to the transport are left out.
\<close>

definition advanceToNextTurn :: "GameState \<Rightarrow> string \<Rightarrow> GameState" where
  "advanceToNextTurn gameState nextPlayerId =
     (if status gameState = Finished then gameState
      else gameState\<lparr>currentPlayerId := nextPlayerId\<rparr>)"

text \<open>
  \<open>advanceToNextTurn(gameId, getNextPlayerId(gameState))\<close>. When \<open>getNextPlayerId\<close>
  yields \<open>undefined\<close> and the game is not finished, \<open>undefined\<close> is stored as
  \<open>currentPlayerId\<close>; no \<open>GameState\<close> has such a field, so the result is the error
  \<open>UndefinedPlayerId\<close>.
\<close>

definition advanceFrom :: "GameState \<Rightarrow> error + GameState" where
  "advanceFrom gameState =
     (case getNextPlayerId gameState of
        Some nextPlayerId \<Rightarrow> Inr (advanceToNextTurn gameState nextPlayerId)
      | None \<Rightarrow> if status gameState = Finished then Inr gameState else Inl UndefinedPlayerId)"

text \<open>\<open>player.hand = player.hand.filter(...)\<close> on the player that \<open>find\<close> returns.\<close>

fun removeFromHand :: "string \<Rightarrow> Card \<Rightarrow> Player list \<Rightarrow> Player list" where
  "removeFromHand pid c [] = []"
| "removeFromHand pid c (p # ps) =
     (if id_user p = pid
      then p\<lparr>hand := filter (\<lambda>c'. \<not> (rank c' = rank c \<and> suit c' = suit c)) (hand p)\<rparr> # ps
      else p # removeFromHand pid c ps)"

text \<open>
  The synchronous part of \<open>handlePlayCardLogic\<close>. \<open>find(...)!\<close> followed by
  \<open>player.hand\<close> raises a TypeError when the player is not in the game. When the trick
  is complete, \<open>currentPlayerId\<close> becomes the empty string and the trick-end timer is
  armed (\<open>trickEndTimer\<close> below is its callback).
\<close>

definition handlePlayCardLogic :: "GameState \<Rightarrow> string \<Rightarrow> Card \<Rightarrow> error + GameState" where
  "handlePlayCardLogic gameState pid c =
     (case find_first (\<lambda>p. id_user p = pid) (players gameState) of
        None \<Rightarrow> Inl TypeError
      | Some player \<Rightarrow>
          (let g1 = gameState\<lparr>players := removeFromHand pid c (players gameState),
                               currentTrick := currentTrick gameState @ [\<lparr>playerId = pid, card = c\<rparr>]\<rparr>;
               g2 = (if leadSuit g1 = None then g1\<lparr>leadSuit := Some (suit c)\<rparr> else g1)
           in if length (currentTrick g2) = length (players g2)
              then Inr (g2\<lparr>currentPlayerId := []\<rparr>)
              else advanceFrom g2))"

text \<open>
  The callback of the trick-end timer. \<open>determineTrickWinner\<close> called with a null lead
  suit finds no card of that suit and raises the TypeError.
\<close>

definition trickEndTimer :: "GameState \<Rightarrow> error + GameState" where
  "trickEndTimer currentState =
     (case (case leadSuit currentState of
              None \<Rightarrow> Inl TypeError
            | Some ls \<Rightarrow> determineTrickWinner (currentTrick currentState) ls) of
        Inl e \<Rightarrow> Inl e
      | Inr winnerId \<Rightarrow>
          (case processTrickWin currentState winnerId of
             Inl e \<Rightarrow> Inl e
           | Inr nextState \<Rightarrow>
               if status nextState = Finished then Inr nextState
               else Inr (advanceToNextTurn nextState winnerId)))"

text \<open>The game-related effects of a disconnect and of the reconnection timeout.\<close>

definition disconnectTurn :: "GameState \<Rightarrow> string \<Rightarrow> error + GameState" where
  "disconnectTurn game userId =
     (if currentPlayerId game = userId then advanceFrom game else Inr game)"

definition prunePlayer :: "GameState \<Rightarrow> string \<Rightarrow> GameState" where
  "prunePlayer currentGame userId =
     currentGame\<lparr>players := filter (\<lambda>p. id_user p \<noteq> userId) (players currentGame)\<rparr>"

subsection \<open>triggerAutoPlay\<close>

definition longestStep :: "Suit \<times> Card list \<Rightarrow> Suit list \<times> nat \<Rightarrow> Suit list \<times> nat" where
  "longestStep entry st =
     (case entry of (s, cards) \<Rightarrow>
      case st of (longestSuits, maxLength) \<Rightarrow>
        if length cards > maxLength then ([s], length cards)
        else if length cards = maxLength then (longestSuits @ [s], maxLength)
        else (longestSuits, maxLength))"

definition longestSuitsOf :: "(Suit \<times> Card list) list \<Rightarrow> Suit list" where
  "longestSuitsOf suitGroups = fst (fold longestStep suitGroups ([], 0))"

definition randomIndex :: "real \<Rightarrow> 'a list \<Rightarrow> 'a option" where
  "randomIndex r xs =
     (let i = \<lfloor>r * real (length xs)\<rfloor> in if 0 \<le> i then nth_opt xs (nat i) else None)"

definition winningCardInTrick :: "GameState \<Rightarrow> Suit \<Rightarrow> Card option" where
  "winningCardInTrick gameState ls =
     map_option card
       (nth_opt (sort_cmp (\<lambda>a b. getCardValue (card b) - getCardValue (card a))
                   (filter (\<lambda>tc. suit (card tc) = ls) (currentTrick gameState))) 0)"

text \<open>
  The card the heuristic picks: \<open>Inr None\<close> when \<open>triggerAutoPlay\<close> returns without
  playing, \<open>Inr (Some c)\<close> when it plays \<open>c\<close>; \<open>r\<close> is the result of the one call of
  \<open>Math.random()\<close>. Reading a property of \<open>undefined\<close> raises the TypeError.
\<close>

definition autoPlayCard :: "GameState \<Rightarrow> string \<Rightarrow> real \<Rightarrow> error + Card option" where
  "autoPlayCard gameState pid r =
     (if currentPlayerId gameState \<noteq> pid then Inr None
      else case find_first (\<lambda>p. id_user p = pid) (players gameState) of
        None \<Rightarrow> Inr None
      | Some player \<Rightarrow>
          if length (hand player) = 0 then Inr None
          else
            (let h = hand player in
             case leadSuit gameState of
               Some ls \<Rightarrow>
                 (let followSuitCards = sortCards (filter (\<lambda>c. suit c = ls) h) in
                  if length followSuitCards > 0
                  then
                    (let winningHandCards =
                           (case winningCardInTrick gameState ls of
                              Some w \<Rightarrow> filter (\<lambda>c. getCardValue c > getCardValue w) followSuitCards
                            | None \<Rightarrow> followSuitCards)
                     in if length winningHandCards > 0
                        then Inr (Some (winningHandCards ! (length winningHandCards - 1)))
                        else Inr (Some (followSuitCards ! 0)))
                  else
                    (let suitGroups = groupHandBySuit h;
                         longestSuits = longestSuitsOf suitGroups
                     in case randomIndex r longestSuits of
                          None \<Rightarrow> Inl TypeError
                        | Some chosenSuit \<Rightarrow>
                            (case map_of suitGroups chosenSuit of
                               None \<Rightarrow> Inl TypeError
                             | Some cards \<Rightarrow>
                                 (case nth_opt (sortCards cards) 0 of
                                    None \<Rightarrow> Inl TypeError
                                  | Some c \<Rightarrow> Inr (Some c)))))
             | None \<Rightarrow>
                 Inr (Some (foldl (\<lambda>highest current.
                                     if getCardValue current > getCardValue highest
                                     then current else highest) (hd h) (tl h)))))"

definition triggerAutoPlay :: "GameState \<Rightarrow> string \<Rightarrow> real \<Rightarrow> error + GameState" where
  "triggerAutoPlay gameState pid r =
     (case autoPlayCard gameState pid r of
        Inl e \<Rightarrow> Inl e
      | Inr None \<Rightarrow> Inr gameState
      | Inr (Some cardToPlay) \<Rightarrow> handlePlayCardLogic gameState pid cardToPlay)"

subsection \<open>Reachable game states\<close>

inductive reachable :: "GameState \<Rightarrow> bool" where
  start: "setupNewGame rnd playerList gameId maxP = Some (Inr g) \<Longrightarrow> reachable g"
| play: "reachable g \<Longrightarrow> handlePlayCardLogic g pid c = Inr g' \<Longrightarrow> reachable g'"
| autoplay: "reachable g \<Longrightarrow> triggerAutoPlay g pid r = Inr g' \<Longrightarrow> reachable g'"
| trickEnd: "reachable g \<Longrightarrow> trickEndTimer g = Inr g' \<Longrightarrow> reachable g'"
| disconnect: "reachable g \<Longrightarrow> disconnectTurn g userId = Inr g' \<Longrightarrow> reachable g'"
| prune: "reachable g \<Longrightarrow> reachable (prunePlayer g userId)"

definition leadSuit_iff_trick :: "GameState \<Rightarrow> bool" where
  "leadSuit_iff_trick g = ((leadSuit g = None) = (currentTrick g = []))"

subsection \<open>Example values\<close>

definition userA :: User where
  "userA = \<lparr>id_user = ''A'', socketId = ''s1'', name = ''Ann'', isHost = Some True,
            status_user = Online\<rparr>"

definition userB :: User where
  "userB = \<lparr>id_user = ''B'', socketId = ''s2'', name = ''Bob'', isHost = None,
            status_user = Online\<rparr>"

definition playerA :: Player where
  "playerA = \<lparr>id_user = ''A'', socketId = ''s1'', name = ''Ann'', isHost = Some True,
              status_user = Online,
              hand = [\<lparr>suit = Diamonds, rank = R7\<rparr>, \<lparr>suit = Clubs, rank = R9\<rparr>],
              tricksWon = 0, agoraUid = 1000\<rparr>"

definition playerB :: Player where
  "playerB = \<lparr>id_user = ''B'', socketId = ''s2'', name = ''Bob'', isHost = None,
              status_user = Online,
              hand = [\<lparr>suit = Hearts, rank = R3\<rparr>, \<lparr>suit = Hearts, rank = RK\<rparr>,
                      \<lparr>suit = Spades, rank = R5\<rparr>],
              tricksWon = 0, agoraUid = 1001\<rparr>"

text \<open>A game of two in which \<open>A\<close> has led the two of hearts and \<open>B\<close> is to play.\<close>

definition exampleGame :: GameState where
  "exampleGame = \<lparr>id_game = ''game-R'', players = [playerA, playerB], deck = [],
                  currentTrick = [\<lparr>playerId = ''A'', card = \<lparr>suit = Hearts, rank = R2\<rparr>\<rparr>],
                  leadSuit = Some Hearts, currentPlayerId = ''B'', turnOrder = [''A'', ''B''],
                  round_game = 1, trickNumber = 1, status = Playing, hostId = ''A'',
                  maxPlayers = 2\<rparr>"

text \<open>
  The trick of the scenario: \<open>A\<close> leads the seven of diamonds, \<open>B\<close> plays the two and
  \<open>C\<close> the king of diamonds, \<open>D\<close> the three of clubs.
\<close>

definition exampleTrick :: "TrickCard list" where
  "exampleTrick = [\<lparr>playerId = ''A'', card = \<lparr>suit = Diamonds, rank = R7\<rparr>\<rparr>,
                   \<lparr>playerId = ''B'', card = \<lparr>suit = Diamonds, rank = R2\<rparr>\<rparr>,
                   \<lparr>playerId = ''C'', card = \<lparr>suit = Diamonds, rank = RK\<rparr>\<rparr>,
                   \<lparr>playerId = ''D'', card = \<lparr>suit = Clubs, rank = R3\<rparr>\<rparr>]"

text \<open>The example game before the first card of the trick.\<close>

definition emptyTrickGame :: GameState where
  "emptyTrickGame = exampleGame\<lparr>currentTrick := [], leadSuit := None\<rparr>"

text \<open>Whether \<open>setupNewGame\<close> returned a state.\<close>

definition returned :: "(error + GameState) option \<Rightarrow> bool" where
  "returned res = (case res of Some (Inr g) \<Rightarrow> True | _ \<Rightarrow> False)"

text \<open>
  A card beats the trick when its value is strictly greater than the value of every
  lead-suit card already in the trick, that is, than the highest of them.
\<close>

definition beatsTrick :: "GameState \<Rightarrow> Suit \<Rightarrow> Card \<Rightarrow> bool" where
  "beatsTrick s ls h =
     (\<forall>tc\<in>set (currentTrick s). suit (card tc) = ls \<longrightarrow>
        getCardValue (card tc) < getCardValue h)"

subsection \<open>Views that differ only in concealed cards\<close>

text \<open>
  Two player entries agree for recipient \<open>t\<close> when they are equal in every field but
  the hand, their hands have the same length, and the hands are equal when the entry is
  \<open>t\<close>'s own. Two states agree for \<open>t\<close> when they are equal in every field but
  \<open>players\<close> and their player entries agree pairwise.
\<close>

definition hidden_equal :: "string \<Rightarrow> Player \<Rightarrow> Player \<Rightarrow> bool" where
  "hidden_equal t p q =
     (p\<lparr>hand := []\<rparr> = q\<lparr>hand := []\<rparr> \<and> length (hand p) = length (hand q)
      \<and> (id_user p = t \<longrightarrow> hand p = hand q))"

definition agree_except_hidden :: "string \<Rightarrow> GameState \<Rightarrow> GameState \<Rightarrow> bool" where
  "agree_except_hidden t s1 s2 =
     (s1\<lparr>players := []\<rparr> = s2\<lparr>players := []\<rparr>
      \<and> list_all2 (hidden_equal t) (players s1) (players s2))"

definition exampleGame2 :: GameState where
  "exampleGame2 =
     exampleGame\<lparr>players := [playerA, playerB\<lparr>hand := [\<lparr>suit = Clubs, rank = RA\<rparr>,
                                                    \<lparr>suit = Diamonds, rank = R4\<rparr>,
                                                    \<lparr>suit = Hearts, rank = RQ\<rparr>]\<rparr>]\<rparr>"

definition exampleDeck :: "Card list" where
  "exampleDeck = [\<lparr>suit = Clubs, rank = R2\<rparr>, \<lparr>suit = Spades, rank = RK\<rparr>,
                  \<lparr>suit = Hearts, rank = R7\<rparr>, \<lparr>suit = Diamonds, rank = R10\<rparr>,
                  \<lparr>suit = Hearts, rank = RA\<rparr>]"

text \<open>A random source that always yields one half, and a third participant.\<close>

definition halfRandom :: "nat \<Rightarrow> real" where
  "halfRandom k = 1 / 2"

definition userC :: User where
  "userC = \<lparr>id_user = ''C'', socketId = ''s4'', name = ''Cy'', isHost = None,
            status_user = Online\<rparr>"

text \<open>Projections of the result of \<open>setupNewGame\<close>, for stating concrete facts.\<close>

definition startOf :: "(error + GameState) option \<Rightarrow> string option" where
  "startOf res = (case res of Some (Inr g) \<Rightarrow> Some (currentPlayerId g) | _ \<Rightarrow> None)"

definition orderOf :: "(error + GameState) option \<Rightarrow> string list option" where
  "orderOf res = (case res of Some (Inr g) \<Rightarrow> Some (turnOrder g) | _ \<Rightarrow> None)"

definition twoOfClubsDealt :: "(error + GameState) option \<Rightarrow> bool option" where
  "twoOfClubsDealt res =
     (case res of Some (Inr g) \<Rightarrow> Some (list_ex hasTwoOfClubs (players g)) | _ \<Rightarrow> None)"

text \<open>A player entry and a participant with the same host flag and id.\<close>

definition same_user :: "'a User_scheme \<Rightarrow> 'b User_scheme \<Rightarrow> bool" where
  "same_user p q = (isHost p = isHost q \<and> id_user p = id_user q)"

section \<open>Properties\<close>

subsection \<open>getNextPlayerId\<close>

lemma indexOf_from_absent: "a \<notin> set xs \<Longrightarrow> indexOf_from xs a i = -1"
  by (induction xs arbitrary: i) auto

lemma indexOf_from_range:
  "a \<in> set xs \<Longrightarrow> i \<le> indexOf_from xs a i \<and> indexOf_from xs a i < i + int (length xs)"
proof (induction xs arbitrary: i)
  case Nil
  then show ?case by simp
next
  case (Cons x xs)
  show ?case
  proof (cases "x = a")
    case True
    then show ?thesis by simp
  next
    case False
    with Cons.prems have "a \<in> set xs" by simp
    from Cons.IH [OF this, of "i + 1"] False show ?thesis by simp
  qed
qed

lemma indexOf_lower: "-1 \<le> indexOf xs a"
proof (cases "a \<in> set xs")
  case True
  from indexOf_from_range [OF this, of 0] show ?thesis by (simp add: indexOf_def)
next
  case False
  then show ?thesis by (simp add: indexOf_def indexOf_from_absent)
qed

text \<open>
  Claim C10. With a non-empty \<open>turnOrder\<close>, \<open>getNextPlayerId\<close> always returns a
  player id, and that id is an element of \<open>turnOrder\<close>. When \<open>currentPlayerId\<close> does not
  occur in \<open>turnOrder\<close> (as with the empty-string sentinel set while a completed trick
  is being resolved), the result is the first element of \<open>turnOrder\<close>.
\<close>

theorem getNextPlayerId_total:
  assumes "turnOrder s \<noteq> []"
  shows "(\<exists>p. getNextPlayerId s = Some p \<and> p \<in> set (turnOrder s))
       \<and> (currentPlayerId s \<notin> set (turnOrder s) \<longrightarrow> getNextPlayerId s = Some (hd (turnOrder s)))
       \<and> ('''' \<notin> set (turnOrder s) \<and> currentPlayerId s = '''' \<longrightarrow>
            getNextPlayerId s = Some (hd (turnOrder s)))"
proof -
  let ?n = "int (length (turnOrder s))"
  let ?k = "(indexOf (turnOrder s) (currentPlayerId s) + 1) mod ?n"
  from assms have npos: "0 < ?n" by simp
  have k0: "0 \<le> ?k" using npos by simp
  have k1: "?k < ?n" using npos by simp
  have lt: "nat ?k < length (turnOrder s)" using k0 k1 by linarith
  have val: "getNextPlayerId s = Some (turnOrder s ! nat ?k)"
    using assms by (simp add: getNextPlayerId_def Let_def)
  have mem: "turnOrder s ! nat ?k \<in> set (turnOrder s)" using lt by simp
  have absent: "getNextPlayerId s = Some (hd (turnOrder s))"
    if "currentPlayerId s \<notin> set (turnOrder s)"
  proof -
    from that have "indexOf (turnOrder s) (currentPlayerId s) = -1"
      by (simp add: indexOf_def indexOf_from_absent)
    then have "nat ?k = 0" by simp
    with val assms show ?thesis by (simp add: hd_conv_nth)
  qed
  from val mem absent show ?thesis by auto
qed

theorem getNextPlayerId_total_witness:
  "turnOrder (exampleGame\<lparr>currentPlayerId := []\<rparr>) \<noteq> []
   \<and> [] \<notin> set (turnOrder (exampleGame\<lparr>currentPlayerId := []\<rparr>))
   \<and> getNextPlayerId (exampleGame\<lparr>currentPlayerId := []\<rparr>) = Some ''A''"
  using getNextPlayerId_total [of "exampleGame\<lparr>currentPlayerId := []\<rparr>"]
  by (simp add: exampleGame_def)

subsection \<open>determineTrickWinner\<close>

lemma getCardValue_ge2: "2 \<le> getCardValue c"
  by (cases "rank c") (simp_all add: getCardValue_def)

lemma winnerLoop_inv:
  assumes "case w of None \<Rightarrow> h < 2 | Some t \<Rightarrow> suit (card t) = ls \<and> getCardValue (card t) = h"
  shows "case winnerLoop ls xs w h of
           None \<Rightarrow> w = None \<and> (\<forall>x\<in>set xs. suit (card x) \<noteq> ls)
         | Some t \<Rightarrow> suit (card t) = ls \<and> (t \<in> set xs \<or> w = Some t)
                     \<and> h \<le> getCardValue (card t)
                     \<and> (\<forall>x\<in>set xs. suit (card x) = ls \<longrightarrow> getCardValue (card x) \<le> getCardValue (card t))"
  using assms
proof (induction xs arbitrary: w h)
  case Nil
  then show ?case by (cases w) auto
next
  case (Cons x xs)
  show ?case
  proof (cases "suit (card x) = ls \<and> getCardValue (card x) > h")
    case True
    have "case Some x of None \<Rightarrow> getCardValue (card x) < 2
          | Some t \<Rightarrow> suit (card t) = ls \<and> getCardValue (card t) = getCardValue (card x)"
      using True by simp
    from Cons.IH [OF this] True show ?thesis
      by (auto simp: Let_def split: option.splits)
  next
    case False
    from Cons.IH [OF Cons.prems] False Cons.prems getCardValue_ge2 [of "card x"] show ?thesis
      by (auto simp: Let_def split: option.splits)
  qed
qed

text \<open>
  Claim C3. For a trick holding at least one card of the lead suit,
  \<open>determineTrickWinner\<close> returns the \<open>playerId\<close> of a TrickCard of the trick whose card
  is of the lead suit and whose value is maximal among the trick's lead-suit cards; the
  TrickCard it selects is never off the lead suit. The values of the ranks are
  \<open>2 = 2, \<dots>, A = 14\<close>.
\<close>

theorem determineTrickWinner_max:
  assumes "\<exists>tc\<in>set trick. suit (card tc) = ls"
  shows "(\<exists>w\<in>set trick.
            winningTrickCard trick ls = Some w
          \<and> determineTrickWinner trick ls = Inr (playerId w)
          \<and> suit (card w) = ls
          \<and> (\<forall>tc\<in>set trick. suit (card tc) = ls \<longrightarrow>
                getCardValue (card tc) \<le> getCardValue (card w)))
       \<and> map (\<lambda>r. getCardValue \<lparr>suit = ls, rank = r\<rparr>) allRanks
           = [2, 3, 4, 5, 6, 7, 8, 9, 10, 11, 12, 13, 14]"
proof -
  have "case (None :: TrickCard option) of None \<Rightarrow> (-1::int) < 2
        | Some t \<Rightarrow> suit (card t) = ls \<and> getCardValue (card t) = -1"
    by simp
  from winnerLoop_inv [OF this, of trick] assms
  have "\<exists>w\<in>set trick.
            winningTrickCard trick ls = Some w
          \<and> determineTrickWinner trick ls = Inr (playerId w)
          \<and> suit (card w) = ls
          \<and> (\<forall>tc\<in>set trick. suit (card tc) = ls \<longrightarrow>
                getCardValue (card tc) \<le> getCardValue (card w))"
    by (auto simp: winningTrickCard_def determineTrickWinner_def split: option.splits)
  then show ?thesis by (simp add: allRanks_def getCardValue_def)
qed

theorem determineTrickWinner_max_witness:
  "(\<exists>tc\<in>set exampleTrick. suit (card tc) = Diamonds)
   \<and> determineTrickWinner exampleTrick Diamonds = Inr ''C''"
proof -
  have ex: "\<exists>tc\<in>set exampleTrick. suit (card tc) = Diamonds"
    by (simp add: exampleTrick_def)
  have val: "determineTrickWinner exampleTrick Diamonds = Inr ''C''"
    by (simp add: exampleTrick_def determineTrickWinner_def winningTrickCard_def getCardValue_def)
  from determineTrickWinner_max [OF ex] ex val show ?thesis by simp
qed

subsection \<open>processTrickWin\<close>

lemma incrementWinner_length: "length (incrementWinner w ps) = length ps"
  by (induction ps) auto

lemma incrementWinner_first:
  assumes "i < length ps" "id_user (ps ! i) = w" "\<forall>j<i. id_user (ps ! j) \<noteq> w"
  shows "incrementWinner w ps = ps[i := (ps ! i)\<lparr>tricksWon := tricksWon (ps ! i) + 1\<rparr>]"
  using assms
proof (induction ps arbitrary: i)
  case Nil
  then show ?case by simp
next
  case (Cons p ps)
  show ?case
  proof (cases i)
    case 0
    with Cons.prems show ?thesis by simp
  next
    case (Suc k)
    from Cons.prems Suc have p: "id_user p \<noteq> w" by auto
    have k: "k < length ps" "id_user (ps ! k) = w" using Cons.prems Suc by auto
    have "\<forall>j<k. id_user (ps ! j) \<noteq> w"
    proof (intro allI impI)
      fix j assume "j < k"
      then have "Suc j < i" using Suc by simp
      with Cons.prems(3) have "id_user ((p # ps) ! Suc j) \<noteq> w" by blast
      then show "id_user (ps ! j) \<noteq> w" by simp
    qed
    from Cons.IH [OF k this] p Suc show ?thesis by simp
  qed
qed

lemma incrementWinner_hd_hand:
  "ps \<noteq> [] \<Longrightarrow> incrementWinner w ps \<noteq> [] \<and> hand (hd (incrementWinner w ps)) = hand (hd ps)"
  by (cases ps) auto

text \<open>
  Claim C4. For a state with a non-empty player list in which \<open>i\<close> is the first
  index of a player with id \<open>w\<close> (the player \<open>find\<close> returns), \<open>processTrickWin\<close>
  returns a state in which that player's \<open>tricksWon\<close> is one greater, every other player
  entry is unchanged, \<open>currentTrick\<close> is empty, \<open>leadSuit\<close> is null, \<open>currentPlayerId\<close>
  is \<open>w\<close>, \<open>trickNumber\<close> is one greater, and \<open>status\<close> is finished exactly when the
  first player's hand is empty, playing otherwise; the remaining fields are unchanged.
\<close>

theorem processTrickWin_effect:
  assumes "players s \<noteq> []"
    and "i < length (players s)"
    and "id_user (players s ! i) = w"
    and "\<forall>j<i. id_user (players s ! j) \<noteq> w"
  shows "\<exists>s'. processTrickWin s w = Inr s'
      \<and> length (players s') = length (players s)
      \<and> players s' ! i = (players s ! i)\<lparr>tricksWon := tricksWon (players s ! i) + 1\<rparr>
      \<and> tricksWon (players s' ! i) = tricksWon (players s ! i) + 1
      \<and> (\<forall>j<length (players s). j \<noteq> i \<longrightarrow> players s' ! j = players s ! j)
      \<and> currentTrick s' = []
      \<and> leadSuit s' = None
      \<and> currentPlayerId s' = w
      \<and> trickNumber s' = trickNumber s + 1
      \<and> (status s' = Finished \<longleftrightarrow> hand (hd (players s)) = [])
      \<and> (status s' = Playing \<longleftrightarrow> hand (hd (players s)) \<noteq> [])
      \<and> id_game s' = id_game s \<and> deck s' = deck s \<and> turnOrder s' = turnOrder s
      \<and> round_game s' = round_game s \<and> hostId s' = hostId s \<and> maxPlayers s' = maxPlayers s"
proof -
  let ?ps = "incrementWinner w (players s)"
  have upd: "?ps = (players s)[i := (players s ! i)\<lparr>tricksWon := tricksWon (players s ! i) + 1\<rparr>]"
    using assms(2-4) by (rule incrementWinner_first)
  from incrementWinner_hd_hand [OF assms(1), of w]
  obtain p0 rest where ps: "?ps = p0 # rest" and h0: "hand p0 = hand (hd (players s))"
    by (cases ?ps) auto
  let ?s' = "s\<lparr>players := ?ps, currentTrick := [], leadSuit := None,
                currentPlayerId := w, trickNumber := trickNumber s + 1,
                status := (if hand (hd (players s)) = [] then Finished else Playing)\<rparr>"
  have res: "processTrickWin s w = Inr ?s'"
    using ps h0 by (simp add: processTrickWin_def Let_def)
  have "players ?s' ! i = (players s ! i)\<lparr>tricksWon := tricksWon (players s ! i) + 1\<rparr>"
    using upd assms(2) by simp
  moreover have "\<forall>j<length (players s). j \<noteq> i \<longrightarrow> players ?s' ! j = players s ! j"
    using upd by simp
  moreover have "length (players ?s') = length (players s)"
    by (simp add: incrementWinner_length)
  ultimately show ?thesis using res by simp
qed

theorem processTrickWin_effect_witness:
  "players exampleGame \<noteq> [] \<and> (1::nat) < length (players exampleGame)
   \<and> id_user (players exampleGame ! 1) = ''B''
   \<and> id_user (players exampleGame ! 0) \<noteq> ''B''
   \<and> (\<exists>s'. processTrickWin exampleGame ''B'' = Inr s'
          \<and> tricksWon (players s' ! 1) = 1 \<and> players s' ! 0 = playerA
          \<and> status s' = Playing \<and> currentPlayerId s' = ''B'' \<and> trickNumber s' = 2)"
proof -
  have h1: "players exampleGame \<noteq> []" by (simp add: exampleGame_def)
  have h2: "(1::nat) < length (players exampleGame)" by (simp add: exampleGame_def)
  have h3: "id_user (players exampleGame ! 1) = ''B''" by (simp add: exampleGame_def playerB_def)
  have h4: "\<forall>j<1::nat. id_user (players exampleGame ! j) \<noteq> ''B''"
    by (simp add: exampleGame_def playerA_def)
  have h5: "id_user (players exampleGame ! 0) \<noteq> ''B''"
    by (simp add: exampleGame_def playerA_def)
  from processTrickWin_effect [OF h1 h2 h3 h4] h1 h2 h3 h5 show ?thesis
    by (auto simp: exampleGame_def playerA_def playerB_def)
qed

subsection \<open>isMoveValid\<close>

lemma find_first_None: "find_first P xs = None \<longleftrightarrow> (\<forall>x\<in>set xs. \<not> P x)"
  by (induction xs) auto

lemma find_first_Some: "find_first P xs = Some x \<Longrightarrow> x \<in> set xs \<and> P x"
  by (induction xs) (auto split: if_splits)

lemma card_eqI: "suit a = suit b \<Longrightarrow> rank a = rank b \<Longrightarrow> a = (b::Card)"
  by (rule Card.equality) simp_all

lemma hasCard_iff: "hasCard player c \<longleftrightarrow> c \<in> set (hand player)"
  unfolding hasCard_def list_ex_iff using card_eqI by blast

lemma hasLeadSuit_iff: "hasLeadSuit player ls \<longleftrightarrow> (\<exists>c\<in>set (hand player). suit c = ls)"
  by (simp add: hasLeadSuit_def list_ex_iff)

text \<open>
  Claim C5. \<open>isMoveValid\<close> rejects with the matching message, testing in this order:
  the player id does not occur among the players; the player is not \<open>currentPlayerId\<close>;
  the card is not in the hand of the player found; a lead suit is set, that hand holds a
  card of it and the proposed card is of another suit. It returns valid, with the empty
  message, exactly when none of these holds. The function reads the state and returns
  only its verdict: its model has no state among its results.
\<close>

theorem isMoveValid_cases:
  "(pid \<notin> id_user ` set (players s) \<longrightarrow>
      isMoveValid s pid c = \<lparr>valid = False, message = ''Player not found.''\<rparr>)
 \<and> (\<forall>player. find_first (\<lambda>p. id_user p = pid) (players s) = Some player \<longrightarrow>
      (currentPlayerId s \<noteq> pid \<longrightarrow>
         isMoveValid s pid c = \<lparr>valid = False, message = ''It's not your turn.''\<rparr>)
    \<and> (currentPlayerId s = pid \<and> c \<notin> set (hand player) \<longrightarrow>
         isMoveValid s pid c
           = \<lparr>valid = False, message = ''You don't have that card in your hand.''\<rparr>)
    \<and> (\<forall>ls. currentPlayerId s = pid \<and> c \<in> set (hand player) \<and> leadSuit s = Some ls
            \<and> (\<exists>c'\<in>set (hand player). suit c' = ls) \<and> suit c \<noteq> ls \<longrightarrow>
         isMoveValid s pid c
           = \<lparr>valid = False,
              message = ''You must follow suit by playing a '' @ suitName ls @ ''.''\<rparr>)
    \<and> (valid (isMoveValid s pid c) \<longleftrightarrow>
         currentPlayerId s = pid \<and> c \<in> set (hand player)
         \<and> \<not> (\<exists>ls. leadSuit s = Some ls \<and> (\<exists>c'\<in>set (hand player). suit c' = ls)
                   \<and> suit c \<noteq> ls)))
 \<and> (valid (isMoveValid s pid c) \<longrightarrow> isMoveValid s pid c = \<lparr>valid = True, message = []\<rparr>)
 \<and> (valid (isMoveValid s pid c) \<longrightarrow> pid \<in> id_user ` set (players s))"
proof -
  have none: "find_first (\<lambda>p. id_user p = pid) (players s) = None"
    if "pid \<notin> id_user ` set (players s)"
    using that by (auto simp: find_first_None)
  have some: "\<exists>player. find_first (\<lambda>p. id_user p = pid) (players s) = Some player"
    if "pid \<in> id_user ` set (players s)"
  proof (cases "find_first (\<lambda>p. id_user p = pid) (players s)")
    case None
    with that show ?thesis by (auto simp: find_first_None)
  next
    case (Some a)
    then show ?thesis by simp
  qed
  show ?thesis
  proof (cases "pid \<in> id_user ` set (players s)")
    case False
    from none [OF False] False show ?thesis by (simp add: isMoveValid_def)
  next
    case True
    from some [OF True] obtain player
      where f: "find_first (\<lambda>p. id_user p = pid) (players s) = Some player" by blast
    show ?thesis using f True
      by (cases "leadSuit s")
         (auto simp: isMoveValid_def hasCard_iff hasLeadSuit_iff)
  qed
qed

theorem isMoveValid_cases_witness:
  "find_first (\<lambda>p. id_user p = ''B'') (players exampleGame) = Some playerB
   \<and> ''Z'' \<notin> id_user ` set (players exampleGame)
   \<and> isMoveValid exampleGame ''Z'' \<lparr>suit = Spades, rank = R5\<rparr>
        = \<lparr>valid = False, message = ''Player not found.''\<rparr>
   \<and> isMoveValid exampleGame ''B'' \<lparr>suit = Spades, rank = R5\<rparr>
        = \<lparr>valid = False, message = ''You must follow suit by playing a hearts.''\<rparr>
   \<and> valid (isMoveValid exampleGame ''B'' \<lparr>suit = Hearts, rank = R3\<rparr>)"
proof -
  have f: "find_first (\<lambda>p. id_user p = ''B'') (players exampleGame) = Some playerB"
    by (simp add: exampleGame_def playerA_def playerB_def)
  have z: "''Z'' \<notin> id_user ` set (players exampleGame)"
    by (simp add: exampleGame_def playerA_def playerB_def)
  from isMoveValid_cases [of "''Z''" exampleGame "\<lparr>suit = Spades, rank = R5\<rparr>"] z
  have a: "isMoveValid exampleGame ''Z'' \<lparr>suit = Spades, rank = R5\<rparr>
        = \<lparr>valid = False, message = ''Player not found.''\<rparr>" by blast
  have cur: "currentPlayerId exampleGame = ''B''" "leadSuit exampleGame = Some Hearts"
    by (simp_all add: exampleGame_def)
  have hb: "hand playerB = [\<lparr>suit = Hearts, rank = R3\<rparr>, \<lparr>suit = Hearts, rank = RK\<rparr>,
                      \<lparr>suit = Spades, rank = R5\<rparr>]" by (simp add: playerB_def)
  from isMoveValid_cases [of "''B''" exampleGame "\<lparr>suit = Spades, rank = R5\<rparr>"] f cur hb
  have b: "isMoveValid exampleGame ''B'' \<lparr>suit = Spades, rank = R5\<rparr>
        = \<lparr>valid = False, message = ''You must follow suit by playing a hearts.''\<rparr>"
    by simp
  from isMoveValid_cases [of "''B''" exampleGame "\<lparr>suit = Hearts, rank = R3\<rparr>"] f cur hb
  have c: "valid (isMoveValid exampleGame ''B'' \<lparr>suit = Hearts, rank = R3\<rparr>)"
    by simp
  from f z a b c show ?thesis by simp
qed

subsection \<open>sanitizeGameStateForPlayer\<close>

lemma sanitizePlayer_hidden:
  assumes "hidden_equal t p q"
  shows "sanitizePlayer t p = sanitizePlayer t q"
proof -
  from assms have e: "p\<lparr>hand := []\<rparr> = q\<lparr>hand := []\<rparr>"
    and l: "length (hand p) = length (hand q)"
    and h: "id_user p = t \<longrightarrow> hand p = hand q"
    by (simp_all add: hidden_equal_def)
  from e have "id_user (p\<lparr>hand := []\<rparr>) = id_user (q\<lparr>hand := []\<rparr>)" by simp
  then have i: "id_user p = id_user q" by simp
  have u: "p\<lparr>hand := H\<rparr> = q\<lparr>hand := H\<rparr>" for H
  proof -
    from e have "(p\<lparr>hand := []\<rparr>)\<lparr>hand := H\<rparr> = (q\<lparr>hand := []\<rparr>)\<lparr>hand := H\<rparr>" by simp
    then show ?thesis by simp
  qed
  show ?thesis
  proof (cases "id_user p = t")
    case True
    with h have "hand p = hand q" by simp
    have "p = p\<lparr>hand := hand p\<rparr>" by simp
    also have "\<dots> = q\<lparr>hand := hand p\<rparr>" by (rule u)
    also have "\<dots> = q" using \<open>hand p = hand q\<close> by simp
    finally have "p = q" .
    then show ?thesis by simp
  next
    case False
    have "map (\<lambda>_. placeholderCard) (hand p) = map (\<lambda>_. placeholderCard) (hand q)"
      using l by (simp add: map_replicate_const)
    with False i u show ?thesis by (simp add: sanitizePlayer_def)
  qed
qed

lemma sanitize_players_hidden:
  "list_all2 (hidden_equal t) ps qs \<Longrightarrow> map (sanitizePlayer t) ps = map (sanitizePlayer t) qs"
  by (induction rule: list_all2_induct) (simp_all add: sanitizePlayer_hidden)

text \<open>
  Claim C1. The sanitized view for \<open>t\<close> equals the state in every field but
  \<open>players\<close>; the player list keeps its length, an entry with id \<open>t\<close> is unchanged,
  and every other entry differs only in its hand, which becomes as many copies of the
  placeholder card (spades, two) as the hand had cards. Hence two states that agree on
  everything but the contents of the other players' hands have the same view for
  \<open>t\<close>.
\<close>

theorem sanitize_view:
  "(\<exists>ps. sanitizeGameStateForPlayer s t = s\<lparr>players := ps\<rparr>
        \<and> length ps = length (players s)
        \<and> (\<forall>i<length (players s).
              (id_user (players s ! i) = t \<longrightarrow> ps ! i = players s ! i)
            \<and> (id_user (players s ! i) \<noteq> t \<longrightarrow>
                 ps ! i = (players s ! i)
                            \<lparr>hand := replicate (length (hand (players s ! i))) placeholderCard\<rparr>)))
   \<and> placeholderCard = \<lparr>suit = Spades, rank = R2\<rparr>
   \<and> (\<forall>s2. agree_except_hidden t s s2 \<longrightarrow>
          sanitizeGameStateForPlayer s t = sanitizeGameStateForPlayer s2 t)"
proof (intro conjI allI impI)
  show "\<exists>ps. sanitizeGameStateForPlayer s t = s\<lparr>players := ps\<rparr>
        \<and> length ps = length (players s)
        \<and> (\<forall>i<length (players s).
              (id_user (players s ! i) = t \<longrightarrow> ps ! i = players s ! i)
            \<and> (id_user (players s ! i) \<noteq> t \<longrightarrow>
                 ps ! i = (players s ! i)
                            \<lparr>hand := replicate (length (hand (players s ! i))) placeholderCard\<rparr>))"
    by (rule exI [of _ "map (sanitizePlayer t) (players s)"])
       (simp add: sanitizeGameStateForPlayer_def sanitizePlayer_def map_replicate_const)
next
  show "placeholderCard = \<lparr>suit = Spades, rank = R2\<rparr>" by (simp add: placeholderCard_def)
next
  fix s2 assume a: "agree_except_hidden t s s2"
  then have e: "s\<lparr>players := []\<rparr> = s2\<lparr>players := []\<rparr>"
    and l: "list_all2 (hidden_equal t) (players s) (players s2)"
    by (simp_all add: agree_except_hidden_def)
  from e have "(s\<lparr>players := []\<rparr>)\<lparr>players := X\<rparr> = (s2\<lparr>players := []\<rparr>)\<lparr>players := X\<rparr>" for X
    by simp
  then have u: "s\<lparr>players := X\<rparr> = s2\<lparr>players := X\<rparr>" for X by simp
  from sanitize_players_hidden [OF l] u
  show "sanitizeGameStateForPlayer s t = sanitizeGameStateForPlayer s2 t"
    by (simp add: sanitizeGameStateForPlayer_def)
qed

theorem sanitize_view_witness:
  "agree_except_hidden ''A'' exampleGame exampleGame2
   \<and> (1::nat) < length (players exampleGame)
   \<and> id_user (players exampleGame ! 1) \<noteq> ''A''
   \<and> id_user (players exampleGame ! 0) = ''A''
   \<and> sanitizeGameStateForPlayer exampleGame ''A'' = sanitizeGameStateForPlayer exampleGame2 ''A''
   \<and> players (sanitizeGameStateForPlayer exampleGame ''A'')
       = [playerA, playerB\<lparr>hand := [\<lparr>suit = Spades, rank = R2\<rparr>, \<lparr>suit = Spades, rank = R2\<rparr>,
                                      \<lparr>suit = Spades, rank = R2\<rparr>]\<rparr>]"
proof -
  have a: "agree_except_hidden ''A'' exampleGame exampleGame2"
    by (simp add: agree_except_hidden_def hidden_equal_def exampleGame_def exampleGame2_def
        playerA_def playerB_def)
  have b: "(1::nat) < length (players exampleGame)" "id_user (players exampleGame ! 1) \<noteq> ''A''"
    "id_user (players exampleGame ! 0) = ''A''"
    by (simp_all add: exampleGame_def playerA_def playerB_def)
  have c: "players (sanitizeGameStateForPlayer exampleGame ''A'')
       = [playerA, playerB\<lparr>hand := [\<lparr>suit = Spades, rank = R2\<rparr>, \<lparr>suit = Spades, rank = R2\<rparr>,
                                      \<lparr>suit = Spades, rank = R2\<rparr>]\<rparr>]"
    by (simp add: sanitizeGameStateForPlayer_def sanitizePlayer_def exampleGame_def
        playerA_def playerB_def placeholderCard_def)
  from sanitize_view [of exampleGame "''A''"] a
  have "sanitizeGameStateForPlayer exampleGame ''A'' = sanitizeGameStateForPlayer exampleGame2 ''A''"
    by blast
  with a b c show ?thesis by simp
qed

subsection \<open>dealCards\<close>

lemma mset_insert_cmp: "mset (insert_cmp cmp x xs) = add_mset x (mset xs)"
  by (induction xs) auto

lemma mset_sort_cmp: "mset (sort_cmp cmp xs) = mset xs"
  unfolding sort_cmp_def by (induction xs) (auto simp: mset_insert_cmp)

lemma mset_concat_map_sort_cmp: "mset (concat (map (sort_cmp cmp) hs)) = mset (concat hs)"
  by (induction hs) (auto simp: mset_sort_cmp)

lemma mset_concat_push:
  "j < length hs \<Longrightarrow> mset (concat (hs[j := hs ! j @ [x]])) = add_mset x (mset (concat hs))"
proof (induction hs arbitrary: j)
  case Nil
  then show ?case by simp
next
  case (Cons h hs)
  then show ?case by (cases j) auto
qed

lemma dealLoop_Suc: "dealLoop d n (Suc m) = dealStep d n m (dealLoop d n m)"
  by (simp add: dealLoop_def)

lemma length_dealLoop: "length (dealLoop d n m) = n"
  by (induction m) (simp_all add: dealLoop_def dealStep_def)

lemma mset_concat_dealLoop:
  assumes "0 < n" "m \<le> length d"
  shows "mset (concat (dealLoop d n m)) = mset (take m d)"
  using assms(2)
proof (induction m)
  case 0
  have "concat (replicate n ([]::Card list)) = []" by (induction n) auto
  then show ?case by (simp add: dealLoop_def)
next
  case (Suc m)
  then have m: "m < length d" and ih: "mset (concat (dealLoop d n m)) = mset (take m d)" by simp_all
  have j: "m mod n < length (dealLoop d n m)" using assms(1) by (simp add: length_dealLoop)
  have "mset (concat (dealLoop d n (Suc m))) = add_mset (d ! m) (mset (concat (dealLoop d n m)))"
    unfolding dealLoop_Suc dealStep_def by (rule mset_concat_push [OF j])
  also have "\<dots> = mset (take (Suc m) d)"
    using ih m by (simp add: take_Suc_conv_app_nth)
  finally show ?case .
qed

lemma nth_dealLoop:
  assumes "0 < n" "k < n"
  shows "dealLoop d n m ! k = map ((!) d) (filter (\<lambda>i. i mod n = k) [0 ..< m])"
proof (induction m)
  case 0
  from assms show ?case by (simp add: dealLoop_def)
next
  case (Suc m)
  have len: "length (dealLoop d n m) = n" by (rule length_dealLoop)
  show ?case
  proof (cases "m mod n = k")
    case True
    with Suc len assms show ?thesis by (simp add: dealLoop_Suc dealStep_def)
  next
    case False
    with Suc len assms show ?thesis by (simp add: dealLoop_Suc dealStep_def)
  qed
qed

lemma dealCards_dealLoop:
  "dealCards d n = map (sort_cmp compareHand) (dealLoop d n (length d div n * n))"
  by (simp add: dealCards_def Let_def)

text \<open>
  Claim C6. For a deck of pairwise distinct cards and \<open>n > 0\<close> players (so for
  \<open>n\<close> in \<open>{2, 3, 4}\<close>), \<open>dealCards\<close> returns \<open>n\<close> hands; together they hold exactly
  the first \<open>floor(length / n) * n\<close> cards of the deck, hand \<open>k\<close> holding the cards at the
  positions \<open>i\<close> with \<open>i mod n = k\<close>; no card is in two hands or twice in a hand; and
  the remaining cards of the deck are in no hand.
\<close>

theorem dealCards_partition:
  assumes "distinct d" and "0 < n"
  shows "length (dealCards d n) = n
       \<and> mset (concat (dealCards d n)) = mset (take (length d div n * n) d)
       \<and> (\<forall>k<n. mset (dealCards d n ! k)
                  = mset (map ((!) d) (filter (\<lambda>i. i mod n = k) [0 ..< length d div n * n])))
       \<and> distinct (concat (dealCards d n))
       \<and> length (concat (dealCards d n)) = length d div n * n
       \<and> (\<forall>c\<in>set (drop (length d div n * n) d). c \<notin> set (concat (dealCards d n)))"
proof -
  let ?m = "length d div n * n"
  have le: "?m \<le> length d" by simp
  have len: "length (dealCards d n) = n" by (simp add: dealCards_dealLoop length_dealLoop)
  have ms: "mset (concat (dealCards d n)) = mset (take ?m d)"
    using mset_concat_dealLoop [OF assms(2) le]
    by (simp add: dealCards_dealLoop mset_concat_map_sort_cmp)
  have rr: "\<forall>k<n. mset (dealCards d n ! k)
                  = mset (map ((!) d) (filter (\<lambda>i. i mod n = k) [0 ..< ?m]))"
    using assms(2) by (simp add: dealCards_dealLoop length_dealLoop mset_sort_cmp nth_dealLoop)
  have dt: "distinct (take ?m d)" using assms(1) by simp
  have dist: "distinct (concat (dealCards d n))"
    using mset_eq_imp_distinct_iff [OF ms] dt by simp
  have "size (mset (concat (dealCards d n))) = size (mset (take ?m d))" using ms by simp
  then have sz: "length (concat (dealCards d n)) = ?m" using le by simp
  have st: "set (concat (dealCards d n)) = set (take ?m d)"
    using ms by (rule mset_eq_setD)
  have "distinct (take ?m d @ drop ?m d)" using assms(1) by simp
  then have "set (take ?m d) \<inter> set (drop ?m d) = {}" by (simp only: distinct_append)
  with st have rem: "\<forall>c\<in>set (drop ?m d). c \<notin> set (concat (dealCards d n))" by blast
  from len ms rr dist sz rem show ?thesis by blast
qed


theorem dealCards_partition_witness:
  "distinct exampleDeck \<and> (0::nat) < 3
   \<and> length (dealCards exampleDeck 3) = 3
   \<and> distinct (concat (dealCards exampleDeck 3))
   \<and> length (concat (dealCards exampleDeck 3)) = 3
   \<and> \<lparr>suit = Hearts, rank = RA\<rparr> \<notin> set (concat (dealCards exampleDeck 3))
   \<and> dealCards exampleDeck 3
       = [[\<lparr>suit = Clubs, rank = R2\<rparr>], [\<lparr>suit = Spades, rank = RK\<rparr>],
          [\<lparr>suit = Hearts, rank = R7\<rparr>]]"
proof -
  have d: "distinct exampleDeck" by (simp add: exampleDeck_def)
  have n: "(0::nat) < 3" by simp
  have l: "length exampleDeck div 3 * 3 = 3" by (simp add: exampleDeck_def)
  have r: "\<lparr>suit = Hearts, rank = RA\<rparr> \<in> set (drop 3 exampleDeck)"
    by (simp add: exampleDeck_def)
  have v: "dealCards exampleDeck 3
       = [[\<lparr>suit = Clubs, rank = R2\<rparr>], [\<lparr>suit = Spades, rank = RK\<rparr>],
          [\<lparr>suit = Hearts, rank = R7\<rparr>]]"
    by code_simp
  from dealCards_partition [OF d n] l r d v show ?thesis by simp
qed

subsection \<open>createDeck\<close>

lemma random_index_bound:
  assumes "0 \<le> r" "r < 1" "0 < n"
  shows "nat \<lfloor>r * real n\<rfloor> < n"
proof -
  have "r * real n < real n" using assms by simp
  then have "\<lfloor>r * real n\<rfloor> < int n" by (simp add: floor_less_iff)
  then show ?thesis using assms(3) by linarith
qed

lemma mset_shuffleLoop:
  assumes "valid_random rnd"
  shows "i < length d \<Longrightarrow> mset (shuffleLoop rnd k i d) = mset d"
proof (induction i arbitrary: k d)
  case 0
  then show ?case by simp
next
  case (Suc i)
  let ?j = "nat \<lfloor>rnd k * real (Suc i + 1)\<rfloor>"
  from assms have r: "0 \<le> rnd k" "rnd k < 1" by (simp_all add: valid_random_def)
  have "?j < Suc i + 1" using r by (intro random_index_bound) simp_all
  with Suc.prems have j: "?j < length d" by simp
  let ?d' = "d[Suc i := d ! ?j, ?j := d ! Suc i]"
  have sw: "mset ?d' = mset d" using Suc.prems j by (simp add: mset_swap)
  have "i < length ?d'" using Suc.prems by simp
  from Suc.IH [OF this] sw show ?case by (simp add: Let_def)
qed

lemma mset_shuffleDeck: "valid_random rnd \<Longrightarrow> mset (shuffleDeck rnd d) = mset d"
proof (cases d)
  case Nil
  then show ?thesis by (simp add: shuffleDeck_def)
next
  case (Cons x xs)
  assume "valid_random rnd"
  then show ?thesis using Cons by (simp add: shuffleDeck_def mset_shuffleLoop)
qed

lemma length_orderedDeck: "length orderedDeck = 52"
  by (simp add: orderedDeck_def allSuits_def allRanks_def)

lemma distinct_orderedDeck: "distinct orderedDeck"
  by (simp add: orderedDeck_def allSuits_def allRanks_def)

lemma set_orderedDeck: "\<lparr>suit = s, rank = r\<rparr> \<in> set orderedDeck"
  by (cases s; cases r) (simp_all add: orderedDeck_def allSuits_def allRanks_def)

text \<open>
  Claim C8. For every outcome of the random source, \<open>createDeck\<close> returns a list of
  52 cards without repetition in which every pair of a suit and a rank occurs exactly
  once: the shuffle rearranges the ordered deck built from \<open>allSuits\<close> and \<open>allRanks\<close>,
  which list every suit and every rank.
\<close>

theorem createDeck_complete:
  assumes "valid_random rnd"
  shows "length (createDeck rnd) = 52
       \<and> distinct (createDeck rnd)
       \<and> (\<forall>s r. count (mset (createDeck rnd)) \<lparr>suit = s, rank = r\<rparr> = 1)
       \<and> (\<forall>s r. s \<in> set allSuits \<and> r \<in> set allRanks)
       \<and> mset (createDeck rnd) = mset orderedDeck"
proof -
  have ms: "mset (createDeck rnd) = mset orderedDeck"
    using assms by (simp add: createDeck_def mset_shuffleDeck)
  then have "size (mset (createDeck rnd)) = size (mset orderedDeck)" by simp
  then have len: "length (createDeck rnd) = 52" by (simp add: length_orderedDeck)
  have dist: "distinct (createDeck rnd)"
    using mset_eq_imp_distinct_iff [OF ms] distinct_orderedDeck by simp
  have cnt: "count (mset (createDeck rnd)) \<lparr>suit = s, rank = r\<rparr> = 1" for s r
  proof -
    have "count (mset orderedDeck) \<lparr>suit = s, rank = r\<rparr> = 1"
      using distinct_orderedDeck set_orderedDeck [of s r]
      by (simp add: distinct_count_atmost_1)
    with ms show ?thesis by simp
  qed
  have all: "s \<in> set allSuits \<and> r \<in> set allRanks" for s r
    by (cases s; cases r) (simp_all add: allSuits_def allRanks_def)
  from len dist cnt all ms show ?thesis by blast
qed

theorem createDeck_complete_witness:
  "valid_random (\<lambda>k. 1 / 2)
   \<and> length (createDeck (\<lambda>k. 1 / 2)) = 52
   \<and> distinct (createDeck (\<lambda>k. 1 / 2))
   \<and> count (mset (createDeck (\<lambda>k. 1 / 2))) \<lparr>suit = Clubs, rank = R2\<rparr> = 1"
proof -
  have v: "valid_random (\<lambda>k. 1 / 2)" by (simp add: valid_random_def)
  from createDeck_complete [OF v] v show ?thesis by blast
qed

subsection \<open>setupNewGame\<close>

lemma rotateLoop_rotate:
  "s \<in> set xs \<Longrightarrow> k = length (takeWhile (\<lambda>x. x \<noteq> s) xs) \<Longrightarrow>
     rotateLoop xs s = Some (rotate k xs) \<and> hd (rotate k xs) = s"
proof (induction k arbitrary: xs)
  case 0
  then obtain x rest where xs: "xs = x # rest" by (cases xs) auto
  with 0 have "x = s" by (auto split: if_splits)
  with xs show ?case by (subst rotateLoop.simps) simp
next
  case (Suc k)
  then obtain x rest where xs: "xs = x # rest" by (cases xs) auto
  with Suc.prems have ne: "x \<noteq> s" by (auto split: if_splits)
  with Suc.prems xs have mem: "s \<in> set rest" by simp
  have tw: "takeWhile (\<lambda>x. x \<noteq> s) (rest @ [x]) = takeWhile (\<lambda>x. x \<noteq> s) rest"
    using mem by (simp add: takeWhile_append1)
  have k: "k = length (takeWhile (\<lambda>x. x \<noteq> s) (rest @ [x]))"
    using Suc.prems xs ne tw by simp
  have mem': "s \<in> set (rest @ [x])" using mem by simp
  from Suc.IH [OF mem' k]
  have ih: "rotateLoop (rest @ [x]) s = Some (rotate k (rest @ [x]))"
    "hd (rotate k (rest @ [x])) = s" by simp_all
  have r: "rotate (Suc k) xs = rotate k (rest @ [x])"
    using xs by (simp add: rotate1_rotate_swap)
  have "rotateLoop xs s = rotateLoop (rest @ [x]) s"
    using xs ne by (subst rotateLoop.simps) simp
  with ih r show ?case by simp
qed

lemma id_user_mkPlayer: "id_user (mkPlayer hands (p, i)) = id_user p"
  by (simp add: mkPlayer_def)

lemma isHost_mkPlayer: "isHost (mkPlayer hands (p, i)) = isHost p"
  by (simp add: mkPlayer_def)

lemma hand_mkPlayer: "hand (mkPlayer hands (p, i)) = hands ! i"
  by (simp add: mkPlayer_def)

lemma findHost_same:
  "list_all2 same_user xs ys \<Longrightarrow>
     map_option id_user (findHost xs) = map_option id_user (findHost ys)"
  unfolding findHost_def
  by (induction rule: list_all2_induct) (auto simp: same_user_def)

lemma hostOrFirst_same:
  assumes "list_all2 same_user xs ys"
  shows "hostOrFirst xs = hostOrFirst ys"
proof -
  have f: "(case xs of [] \<Rightarrow> Inl TypeError | p # _ \<Rightarrow> Inr (id_user p))
         = (case ys of [] \<Rightarrow> Inl TypeError | p # _ \<Rightarrow> Inr (id_user p))"
    using assms by (cases xs; cases ys) (auto simp: same_user_def)
  from findHost_same [OF assms] f show ?thesis
    by (cases "findHost xs"; cases "findHost ys") (auto simp: hostOrFirst_def Let_def)
qed

lemma mkPlayers_same:
  "list_all2 same_user (map (mkPlayer hands) (zip xs [0 ..< length xs])) xs"
  by (simp add: list_all2_conv_all_nth same_user_def id_user_mkPlayer isHost_mkPlayer)

lemma map_id_mkPlayers:
  "map id_user (map (mkPlayer hands) (zip xs [0 ..< length xs])) = map id_user xs"
  by (rule nth_equalityI) (simp_all add: id_user_mkPlayer)

lemma map_hand_mkPlayers:
  "length hands = length xs \<Longrightarrow>
     map hand (map (mkPlayer hands) (zip xs [0 ..< length xs])) = hands"
  by (rule nth_equalityI) (simp_all add: hand_mkPlayer)

lemma hostOrFirst_mem:
  assumes "xs \<noteq> []"
  shows "\<exists>i. hostOrFirst xs = Inr i \<and> i \<in> id_user ` set xs"
proof -
  from assms obtain p rest where xs: "xs = p # rest" by (cases xs) auto
  show ?thesis
  proof (cases "findHost xs")
    case None
    with xs show ?thesis by (simp add: hostOrFirst_def)
  next
    case (Some h)
    then have "h \<in> set xs" by (auto simp: findHost_def dest: find_first_Some)
    with Some xs show ?thesis by (auto simp: hostOrFirst_def)
  qed
qed

lemma startingPlayer_mem:
  assumes "ps \<noteq> []"
  shows "\<exists>i. startingPlayer ps = Inr i \<and> i \<in> set (map id_user ps)"
proof -
  from hostOrFirst_mem [OF assms] obtain i0
    where h: "hostOrFirst ps = Inr i0" "i0 \<in> id_user ` set ps" by blast
  show ?thesis
  proof (cases "find_first hasTwoOfClubs ps")
    case None
    with h show ?thesis by (simp add: startingPlayer_def)
  next
    case (Some p)
    then have "p \<in> set ps" by (auto dest: find_first_Some)
    with Some h show ?thesis by (simp add: startingPlayer_def)
  qed
qed


lemma length_dealCards: "length (dealCards d n) = n"
  by (simp add: dealCards_dealLoop length_dealLoop)

lemma distinct_concat_dealCards:
  assumes "distinct d" "0 < n"
  shows "distinct (concat (dealCards d n))"
proof -
  have "mset (concat (dealCards d n)) = mset (take (length d div n * n) d)"
    using mset_concat_dealLoop [OF assms(2), of "length d div n * n" d]
    by (simp add: dealCards_dealLoop mset_concat_map_sort_cmp)
  from mset_eq_imp_distinct_iff [OF this] assms(1) show ?thesis by simp
qed

lemma distinct_createDeck: "valid_random rnd \<Longrightarrow> distinct (createDeck rnd)"
proof -
  assume "valid_random rnd"
  then have "mset (createDeck rnd) = mset orderedDeck"
    by (simp add: createDeck_def mset_shuffleDeck)
  from mset_eq_imp_distinct_iff [OF this] distinct_orderedDeck show ?thesis by simp
qed

lemma distinct_concat_disjoint:
  "distinct (concat xss) \<Longrightarrow> i < j \<Longrightarrow> j < length xss \<Longrightarrow>
     set (xss ! i) \<inter> set (xss ! j) = {}"
proof (induction xss arbitrary: i j)
  case Nil
  then show ?case by simp
next
  case (Cons h t)
  from Cons.prems obtain j' where j: "j = Suc j'" by (cases j) auto
  show ?case
  proof (cases i)
    case 0
    have "set (t ! j') \<subseteq> set (concat t)" using Cons.prems j by auto
    moreover have "set h \<inter> set (concat t) = {}" using Cons.prems(1) by simp
    ultimately show ?thesis using 0 j by auto
  next
    case (Suc i')
    from Cons.prems have "distinct (concat t)" by simp
    from Cons.IH [OF this, of i' j'] Cons.prems Suc j show ?thesis by simp
  qed
qed

lemma distinct_concat_unique:
  assumes "distinct (concat xss)" "i < length xss" "j < length xss"
    and "x \<in> set (xss ! i)" "x \<in> set (xss ! j)"
  shows "i = j"
proof (rule ccontr)
  assume "i \<noteq> j"
  then consider "i < j" | "j < i" by linarith
  then show False
  proof cases
    case 1
    from distinct_concat_disjoint [OF assms(1) 1 assms(3)] assms(4,5) show False by auto
  next
    case 2
    from distinct_concat_disjoint [OF assms(1) 2 assms(2)] assms(4,5) show False by auto
  qed
qed

lemma hasTwoOfClubs_iff:
  "hasTwoOfClubs p \<longleftrightarrow> \<lparr>suit = Clubs, rank = R2\<rparr> \<in> set (hand p)"
proof
  assume "hasTwoOfClubs p"
  then have "\<exists>c\<in>set (hand p). suit c = Clubs \<and> rank c = R2"
    by (simp only: hasTwoOfClubs_def list_ex_iff)
  then obtain c where c: "c \<in> set (hand p)" "suit c = Clubs" "rank c = R2" by blast
  have "c = \<lparr>suit = Clubs, rank = R2\<rparr>" by (rule card_eqI) (simp_all add: c)
  with c(1) show "\<lparr>suit = Clubs, rank = R2\<rparr> \<in> set (hand p)" by simp
next
  assume "\<lparr>suit = Clubs, rank = R2\<rparr> \<in> set (hand p)"
  then have "\<exists>c\<in>set (hand p). suit c = Clubs \<and> rank c = R2"
    by (rule bexI [rotated]) simp
  then show "hasTwoOfClubs p" by (simp only: hasTwoOfClubs_def list_ex_iff)
qed

text \<open>
  Claim C7. Participant ids are UUIDs, so non-empty strings. For a non-empty list of
  such participants \<open>setupNewGame\<close> returns a state whose players carry the
  participants' ids and the dealt hands, whose \<open>turnOrder\<close> is a rotation of the
  participants' ids with the starting player in front, and whose \<open>currentPlayerId\<close> is
  that starting player: the player holding the two of clubs (at most one player does,
  for a random source in range); if no dealt hand holds it, the host; and the first
  participant if there is no host. The status is playing, round and trick number are 1,
  and deck, current trick and lead suit are empty.
\<close>

theorem setupNewGame_start:
  assumes "playerList \<noteq> []" and "\<forall>u\<in>set playerList. id_user u \<noteq> []"
  shows "\<exists>g. setupNewGame rnd playerList gameId maxP = Some (Inr g)
    \<and> map id_user (players g) = map id_user playerList
    \<and> map hand (players g) = dealCards (createDeck rnd) (length playerList)
    \<and> (\<exists>k. turnOrder g = rotate k (map id_user playerList))
    \<and> turnOrder g \<noteq> [] \<and> hd (turnOrder g) = currentPlayerId g
    \<and> (\<forall>p. find_first hasTwoOfClubs (players g) = Some p \<longrightarrow> currentPlayerId g = id_user p)
    \<and> (find_first hasTwoOfClubs (players g) = None \<longrightarrow>
          (\<forall>h. findHost playerList = Some h \<longrightarrow> currentPlayerId g = id_user h)
        \<and> (findHost playerList = None \<longrightarrow> currentPlayerId g = id_user (hd playerList)))
    \<and> (valid_random rnd \<longrightarrow>
          (\<forall>i j. i < length (players g) \<and> j < length (players g)
                 \<and> hasTwoOfClubs (players g ! i) \<and> hasTwoOfClubs (players g ! j) \<longrightarrow> i = j))
    \<and> status g = Playing \<and> round_game g = 1 \<and> trickNumber g = 1 \<and> deck g = []
    \<and> currentTrick g = [] \<and> leadSuit g = None"
proof -
  let ?n = "length playerList"
  let ?hands = "dealCards (createDeck rnd) ?n"
  let ?ps = "map (mkPlayer ?hands) (zip playerList [0 ..< ?n])"
  have npos: "0 < ?n" using assms(1) by simp
  have "length ?ps = ?n" by simp
  with npos have "0 < length ?ps" by simp
  then have ps_ne: "?ps \<noteq> []" by (rule iffD1 [OF length_greater_0_conv])
  have ids: "map id_user ?ps = map id_user playerList" by (rule map_id_mkPlayers)
  have hands: "map hand ?ps = ?hands" by (rule map_hand_mkPlayers) (simp add: length_dealCards)
  have same: "list_all2 same_user ?ps playerList" by (rule mkPlayers_same)
  have hof: "hostOrFirst ?ps = hostOrFirst playerList" using same by (rule hostOrFirst_same)
  from hostOrFirst_mem [OF assms(1)] obtain h0
    where h0: "hostOrFirst playerList = Inr h0" by blast
  from startingPlayer_mem [OF ps_ne] obtain sid
    where sp: "startingPlayer ?ps = Inr sid" and sid: "sid \<in> set (map id_user ?ps)" by blast
  from sid have sid': "sid \<in> set (map id_user playerList)" by (simp only: ids)
  define k where "k = length (takeWhile (\<lambda>x. x \<noteq> sid) (map id_user playerList))"
  from rotateLoop_rotate [OF sid' k_def]
  have rot: "rotateLoop (map id_user playerList) sid = Some (rotate k (map id_user playerList))"
    and hdrot: "hd (rotate k (map id_user playerList)) = sid" by simp_all
  define g where "g = \<lparr>id_game = gameId, players = ?ps, deck = [],
                          currentTrick = [], leadSuit = None,
                          currentPlayerId = sid,
                          turnOrder = rotate k (map id_user playerList),
                          round_game = 1, trickNumber = 1, status = Playing,
                          hostId = h0, maxPlayers = maxP\<rparr>"
  have res: "setupNewGame rnd playerList gameId maxP = Some (Inr g)"
    unfolding setupNewGame_def Let_def
    by (simp only: sp ids rot h0 g_def sum.case option.case)
  have first: "(case playerList of [] \<Rightarrow> Inl TypeError | p # _ \<Rightarrow> Inr (id_user p))
                 = Inr (id_user (hd playerList))"
    using assms(1) by (cases playerList) simp_all
  have c2: "sid = id_user p" if "find_first hasTwoOfClubs ?ps = Some p" for p
    using sp that hof h0 by (simp add: startingPlayer_def)
  have nc: "Inr sid = hostOrFirst playerList" if "find_first hasTwoOfClubs ?ps = None"
    using sp that hof h0 by (simp add: startingPlayer_def)
  have c3: "sid = id_user h"
    if "find_first hasTwoOfClubs ?ps = None" "findHost playerList = Some h" for h
  proof -
    from that(2) have "h \<in> set playerList"
      by (auto simp: findHost_def dest: find_first_Some)
    with assms(2) have "id_user h \<noteq> []" by blast
    with nc [OF that(1)] that(2) show ?thesis by (simp add: hostOrFirst_def)
  qed
  have c5: "sid = id_user (hd playerList)"
    if "find_first hasTwoOfClubs ?ps = None" "findHost playerList = None"
    using nc [OF that(1)] that(2) first by (simp add: hostOrFirst_def)
  have pg: "players g = ?ps" by (simp add: g_def)
  have uniq: "i = j"
    if v: "valid_random rnd" and i0: "i < length (players g)" and j0: "j < length (players g)"
      and hi0: "hasTwoOfClubs (players g ! i)" and hj0: "hasTwoOfClubs (players g ! j)" for i j
  proof -
    from i0 j0 have i: "i < ?n" and j: "j < ?n" by (simp_all add: pg)
    have d: "distinct (concat ?hands)"
      using distinct_createDeck [OF v] npos by (rule distinct_concat_dealCards)
    have hand_i: "hand (players g ! i) = ?hands ! i" using i by (simp add: pg hand_mkPlayer)
    have hand_j: "hand (players g ! j) = ?hands ! j" using j by (simp add: pg hand_mkPlayer)
    have ci: "\<lparr>suit = Clubs, rank = R2\<rparr> \<in> set (?hands ! i)"
      using hi0 hand_i by (simp only: hasTwoOfClubs_iff)
    have cj: "\<lparr>suit = Clubs, rank = R2\<rparr> \<in> set (?hands ! j)"
      using hj0 hand_j by (simp only: hasTwoOfClubs_iff)
    have li: "i < length ?hands" "j < length ?hands" using i j by (simp_all add: length_dealCards)
    from distinct_concat_unique [OF d li ci cj] show ?thesis .
  qed
  have uniq': "valid_random rnd \<longrightarrow>
          (\<forall>i j. i < length (players g) \<and> j < length (players g)
                 \<and> hasTwoOfClubs (players g ! i) \<and> hasTwoOfClubs (players g ! j) \<longrightarrow> i = j)"
  proof (intro impI allI)
    fix i j
    assume v: "valid_random rnd"
    assume a: "i < length (players g) \<and> j < length (players g)
                 \<and> hasTwoOfClubs (players g ! i) \<and> hasTwoOfClubs (players g ! j)"
    from a have "i < length (players g)" "j < length (players g)"
      "hasTwoOfClubs (players g ! i)" "hasTwoOfClubs (players g ! j)" by simp_all
    with v show "i = j" by (rule uniq)
  qed
  have tne: "rotate k (map id_user playerList) \<noteq> []" using assms(1) by simp
  show ?thesis
  proof (intro exI [of _ g] conjI)
    show "setupNewGame rnd playerList gameId maxP = Some (Inr g)" by (rule res)
    show "map id_user (players g) = map id_user playerList" using ids by (simp add: g_def)
    show "map hand (players g) = ?hands" using hands by (simp add: g_def)
    show "\<exists>k. turnOrder g = rotate k (map id_user playerList)" by (auto simp: g_def)
    show "turnOrder g \<noteq> []" using tne by (simp add: g_def)
    show "hd (turnOrder g) = currentPlayerId g" using hdrot by (simp add: g_def)
    show "\<forall>p. find_first hasTwoOfClubs (players g) = Some p \<longrightarrow> currentPlayerId g = id_user p"
      using c2 by (simp add: g_def)
    show "find_first hasTwoOfClubs (players g) = None \<longrightarrow>
          (\<forall>h. findHost playerList = Some h \<longrightarrow> currentPlayerId g = id_user h)
        \<and> (findHost playerList = None \<longrightarrow> currentPlayerId g = id_user (hd playerList))"
      using c3 c5 by (simp add: g_def)
    show "valid_random rnd \<longrightarrow>
          (\<forall>i j. i < length (players g) \<and> j < length (players g)
                 \<and> hasTwoOfClubs (players g ! i) \<and> hasTwoOfClubs (players g ! j) \<longrightarrow> i = j)"
      by (rule uniq')
    show "status g = Playing" by (simp add: g_def)
    show "round_game g = 1" by (simp add: g_def)
    show "trickNumber g = 1" by (simp add: g_def)
    show "deck g = []" by (simp add: g_def)
    show "currentTrick g = []" by (simp add: g_def)
    show "leadSuit g = None" by (simp add: g_def)
  qed
qed


theorem setupNewGame_start_witness:
  "[userB, userA, userC] \<noteq> []
   \<and> id_user userB \<noteq> [] \<and> id_user userA \<noteq> [] \<and> id_user userC \<noteq> []
   \<and> findHost [userB, userA, userC] = Some userA
   \<and> twoOfClubsDealt (setupNewGame halfRandom [userB, userA, userC] ''game-R'' 3) = Some False
   \<and> startOf (setupNewGame halfRandom [userB, userA, userC] ''game-R'' 3) = Some ''A''
   \<and> orderOf (setupNewGame halfRandom [userB, userA, userC] ''game-R'' 3)
       = Some [''A'', ''C'', ''B'']"
proof -
  let ?res = "setupNewGame halfRandom [userB, userA, userC] ''game-R'' 3"
  have ne: "[userB, userA, userC] \<noteq> []" by simp
  have idB: "id_user userB \<noteq> []" by (simp add: userB_def)
  have idA: "id_user userA \<noteq> []" by (simp add: userA_def)
  have idC: "id_user userC \<noteq> []" by (simp add: userC_def)
  from idB idA idC have ids: "\<forall>u\<in>set [userB, userA, userC]. id_user u \<noteq> []" by simp
  have host: "findHost [userB, userA, userC] = Some userA" by code_simp
  have nd: "twoOfClubsDealt ?res = Some False" by code_simp
  have ord: "orderOf ?res = Some [''A'', ''C'', ''B'']" by code_simp
  from setupNewGame_start [OF ne ids, of halfRandom "''game-R''" 3] obtain g
    where g: "?res = Some (Inr g)"
      and fb: "find_first hasTwoOfClubs (players g) = None \<longrightarrow>
          (\<forall>h. findHost [userB, userA, userC] = Some h \<longrightarrow> currentPlayerId g = id_user h)
        \<and> (findHost [userB, userA, userC] = None \<longrightarrow>
                 currentPlayerId g = id_user (hd [userB, userA, userC]))"
    by (elim exE conjE)
  from nd g have "\<not> list_ex hasTwoOfClubs (players g)" by (simp add: twoOfClubsDealt_def)
  then have "find_first hasTwoOfClubs (players g) = None"
    by (simp add: find_first_None list_ex_iff)
  with fb host have "currentPlayerId g = id_user userA" by blast
  then have st: "startOf ?res = Some ''A''" using g by (simp add: startOf_def userA_def)
  from ne idB idA idC host nd st ord show ?thesis by (intro conjI)
qed

subsection \<open>The lead suit and the current trick\<close>

lemma setupNewGame_fresh:
  "setupNewGame rnd playerList gameId maxP = Some (Inr g) \<Longrightarrow>
     currentTrick g = [] \<and> leadSuit g = None"
  by (auto simp: setupNewGame_def Let_def split: sum.splits option.splits)

lemma advanceToNextTurn_trick:
  "currentTrick (advanceToNextTurn g n) = currentTrick g
   \<and> leadSuit (advanceToNextTurn g n) = leadSuit g"
  by (simp add: advanceToNextTurn_def)

lemma advanceFrom_trick:
  "advanceFrom g = Inr g' \<Longrightarrow> currentTrick g' = currentTrick g \<and> leadSuit g' = leadSuit g"
  by (auto simp: advanceFrom_def advanceToNextTurn_trick split: option.splits if_splits)

lemma handlePlayCardLogic_trick:
  assumes "handlePlayCardLogic s pid c = Inr s'"
  shows "currentTrick s' = currentTrick s @ [\<lparr>playerId = pid, card = c\<rparr>]
       \<and> leadSuit s' = (case leadSuit s of None \<Rightarrow> Some (suit c) | Some l \<Rightarrow> Some l)"
proof -
  from assms obtain player where "find_first (\<lambda>p. id_user p = pid) (players s) = Some player"
    by (cases "find_first (\<lambda>p. id_user p = pid) (players s)")
       (simp_all add: handlePlayCardLogic_def)
  with assms show ?thesis
    by (cases "leadSuit s")
       (auto simp: handlePlayCardLogic_def Let_def dest: advanceFrom_trick split: if_splits)
qed

lemma processTrickWin_trick:
  "processTrickWin s w = Inr s' \<Longrightarrow> currentTrick s' = [] \<and> leadSuit s' = None"
  by (auto simp: processTrickWin_def Let_def split: list.splits)

lemma trickEndTimer_trick:
  "trickEndTimer s = Inr s' \<Longrightarrow> currentTrick s' = [] \<and> leadSuit s' = None"
  by (auto simp: trickEndTimer_def advanceToNextTurn_trick
      dest: processTrickWin_trick split: option.splits sum.splits if_splits)

lemma reachable_leadSuit_iff_trick: "reachable g \<Longrightarrow> leadSuit_iff_trick g"
proof (induction rule: reachable.induct)
  case (start rnd playerList gameId maxP g)
  then show ?case by (simp add: leadSuit_iff_trick_def setupNewGame_fresh)
next
  case (play g pid c g')
  from handlePlayCardLogic_trick [OF play.hyps(2)] show ?case
    by (simp add: leadSuit_iff_trick_def split: option.splits)
next
  case (autoplay g pid r g')
  show ?case
  proof (cases "autoPlayCard g pid r")
    case (Inl e)
    with autoplay.hyps(2) show ?thesis by (simp add: triggerAutoPlay_def)
  next
    case (Inr oc)
    show ?thesis
    proof (cases oc)
      case None
      with Inr autoplay.hyps(2) autoplay.IH show ?thesis by (simp add: triggerAutoPlay_def)
    next
      case (Some c)
      with Inr autoplay.hyps(2) have "handlePlayCardLogic g pid c = Inr g'"
        by (simp add: triggerAutoPlay_def)
      from handlePlayCardLogic_trick [OF this] show ?thesis
        by (simp add: leadSuit_iff_trick_def split: option.splits)
    qed
  qed
next
  case (trickEnd g g')
  from trickEndTimer_trick [OF trickEnd.hyps(2)] show ?case
    by (simp add: leadSuit_iff_trick_def)
next
  case (disconnect g userId g')
  then show ?case
    by (auto simp: disconnectTurn_def leadSuit_iff_trick_def dest: advanceFrom_trick
        split: if_splits)
next
  case (prune g userId)
  then show ?case by (simp add: prunePlayer_def leadSuit_iff_trick_def)
qed

text \<open>
  Claim C9. \<open>leadSuit\<close> is null exactly when \<open>currentTrick\<close> is empty: in the state
  \<open>setupNewGame\<close> returns; after playing a card, which appends the TrickCard and sets
  \<open>leadSuit\<close> to the card's suit when it was null and keeps it otherwise; after
  \<open>processTrickWin\<close>, which empties the trick and clears \<open>leadSuit\<close>; and so in every
  state reachable by the engine's steps (play, autoplay, trick end, disconnect, prune).
\<close>

theorem leadSuit_null_iff_trick_empty:
  "(setupNewGame rnd playerList gameId maxP = Some (Inr g0) \<longrightarrow> leadSuit_iff_trick g0)
 \<and> (handlePlayCardLogic s1 pid c = Inr s1' \<longrightarrow>
        currentTrick s1' = currentTrick s1 @ [\<lparr>playerId = pid, card = c\<rparr>]
      \<and> (leadSuit s1 = None \<longrightarrow> leadSuit s1' = Some (suit c))
      \<and> (leadSuit s1 \<noteq> None \<longrightarrow> leadSuit s1' = leadSuit s1)
      \<and> leadSuit_iff_trick s1')
 \<and> (processTrickWin s2 w = Inr s2' \<longrightarrow>
        currentTrick s2' = [] \<and> leadSuit s2' = None \<and> leadSuit_iff_trick s2')
 \<and> (reachable g \<longrightarrow> leadSuit_iff_trick g)"
proof (intro conjI impI)
  assume "setupNewGame rnd playerList gameId maxP = Some (Inr g0)"
  then show "leadSuit_iff_trick g0" by (simp add: leadSuit_iff_trick_def setupNewGame_fresh)
next
  assume a: "handlePlayCardLogic s1 pid c = Inr s1'"
  from handlePlayCardLogic_trick [OF a]
  show "currentTrick s1' = currentTrick s1 @ [\<lparr>playerId = pid, card = c\<rparr>]" by simp
  from handlePlayCardLogic_trick [OF a]
  show "leadSuit_iff_trick s1'" by (simp add: leadSuit_iff_trick_def split: option.splits)
  { assume "leadSuit s1 = None"
    with handlePlayCardLogic_trick [OF a] show "leadSuit s1' = Some (suit c)" by simp }
  { assume "leadSuit s1 \<noteq> None"
    with handlePlayCardLogic_trick [OF a] show "leadSuit s1' = leadSuit s1" by auto }
next
  assume b: "processTrickWin s2 w = Inr s2'"
  from processTrickWin_trick [OF b] show "currentTrick s2' = []" by simp
  from processTrickWin_trick [OF b] show "leadSuit s2' = None" by simp
  from processTrickWin_trick [OF b] show "leadSuit_iff_trick s2'"
    by (simp add: leadSuit_iff_trick_def)
next
  assume "reachable g"
  then show "leadSuit_iff_trick g" by (rule reachable_leadSuit_iff_trick)
qed

theorem leadSuit_null_iff_trick_empty_witness:
  "(\<exists>g0. setupNewGame halfRandom [userA, userB] ''game-R'' 2 = Some (Inr g0)
        \<and> reachable g0 \<and> leadSuit_iff_trick g0)
   \<and> (\<exists>s'. handlePlayCardLogic exampleGame ''B'' \<lparr>suit = Hearts, rank = R3\<rparr> = Inr s'
        \<and> leadSuit exampleGame \<noteq> None \<and> leadSuit s' = leadSuit exampleGame
        \<and> leadSuit_iff_trick s')
   \<and> (\<exists>s'. handlePlayCardLogic emptyTrickGame ''B'' \<lparr>suit = Spades, rank = R5\<rparr> = Inr s'
        \<and> leadSuit emptyTrickGame = None \<and> leadSuit s' = Some Spades
        \<and> leadSuit_iff_trick s')
   \<and> (\<exists>s'. processTrickWin exampleGame ''B'' = Inr s' \<and> leadSuit_iff_trick s')"
proof -
  let ?res = "setupNewGame halfRandom [userA, userB] ''game-R'' 2"
  have "returned ?res" by code_simp
  then obtain g0 where g0: "?res = Some (Inr g0)"
    by (auto simp: returned_def split: option.splits sum.splits)
  have r0: "reachable g0" using g0 by (rule reachable.start)
  from leadSuit_null_iff_trick_empty [of halfRandom "[userA, userB]" "''game-R''" 2 g0 _ _ _ _ _ _ _ g0]
    g0 r0
  have i0: "leadSuit_iff_trick g0" by blast
  have a: "\<exists>g0. ?res = Some (Inr g0) \<and> reachable g0 \<and> leadSuit_iff_trick g0"
    using g0 r0 i0 by blast
  let ?c = "\<lparr>suit = Hearts, rank = R3\<rparr>"
  have "\<not> isl (handlePlayCardLogic exampleGame ''B'' ?c)" by code_simp
  then obtain s1 where s1: "handlePlayCardLogic exampleGame ''B'' ?c = Inr s1"
    by (cases "handlePlayCardLogic exampleGame ''B'' ?c") simp_all
  have l1: "leadSuit exampleGame \<noteq> None" by (simp add: exampleGame_def)
  from leadSuit_null_iff_trick_empty [of _ _ _ _ _ exampleGame "''B''" ?c s1] s1 l1
  have "leadSuit s1 = leadSuit exampleGame \<and> leadSuit_iff_trick s1" by blast
  with s1 l1 have b: "\<exists>s'. handlePlayCardLogic exampleGame ''B'' ?c = Inr s'
        \<and> leadSuit exampleGame \<noteq> None \<and> leadSuit s' = leadSuit exampleGame
        \<and> leadSuit_iff_trick s'" by blast
  let ?d = "\<lparr>suit = Spades, rank = R5\<rparr>"
  have "\<not> isl (handlePlayCardLogic emptyTrickGame ''B'' ?d)" by code_simp
  then obtain s2 where s2: "handlePlayCardLogic emptyTrickGame ''B'' ?d = Inr s2"
    by (cases "handlePlayCardLogic emptyTrickGame ''B'' ?d") simp_all
  have l2: "leadSuit emptyTrickGame = None" by (simp add: emptyTrickGame_def)
  from leadSuit_null_iff_trick_empty [of _ _ _ _ _ emptyTrickGame "''B''" ?d s2] s2 l2
  have "leadSuit s2 = Some (suit ?d) \<and> leadSuit_iff_trick s2" by blast
  with s2 l2 have c: "\<exists>s'. handlePlayCardLogic emptyTrickGame ''B'' ?d = Inr s'
        \<and> leadSuit emptyTrickGame = None \<and> leadSuit s' = Some Spades
        \<and> leadSuit_iff_trick s'" by simp
  have "\<not> isl (processTrickWin exampleGame ''B'')" by code_simp
  then obtain s3 where s3: "processTrickWin exampleGame ''B'' = Inr s3"
    by (cases "processTrickWin exampleGame ''B''") simp_all
  from leadSuit_null_iff_trick_empty [of _ _ _ _ _ _ _ _ _ exampleGame "''B''" s3] s3
  have "leadSuit_iff_trick s3" by blast
  with s3 have d: "\<exists>s'. processTrickWin exampleGame ''B'' = Inr s' \<and> leadSuit_iff_trick s'"
    by blast
  from a b c d show ?thesis by (intro conjI)
qed

subsection \<open>The autoplay heuristic\<close>

lemma set_insert_cmp: "set (insert_cmp cmp x xs) = insert x (set xs)"
  by (induction xs) auto

lemma set_sort_cmp: "set (sort_cmp cmp xs) = set xs"
  unfolding sort_cmp_def by (induction xs) (auto simp: set_insert_cmp)

lemma sorted_insert_cmp_key:
  fixes k :: "'a \<Rightarrow> int"
  assumes "sorted_wrt (\<lambda>a b. k a \<le> k b) xs"
  shows "sorted_wrt (\<lambda>a b. k a \<le> k b) (insert_cmp (\<lambda>a b. k a - k b) x xs)"
  using assms
proof (induction xs)
  case Nil
  then show ?case by simp
next
  case (Cons y ys)
  show ?case
  proof (cases "k x - k y \<le> 0")
    case True
    with Cons.prems show ?thesis by auto
  next
    case False
    with Cons show ?thesis by (auto simp: set_insert_cmp)
  qed
qed

lemma sorted_sort_cmp_key:
  fixes k :: "'a \<Rightarrow> int"
  shows "sorted_wrt (\<lambda>a b. k a \<le> k b) (sort_cmp (\<lambda>a b. k a - k b) xs)"
  unfolding sort_cmp_def by (induction xs) (simp_all add: sorted_insert_cmp_key)

lemma sorted_wrt_last_max:
  fixes k :: "'a \<Rightarrow> int"
  assumes "sorted_wrt (\<lambda>a b. k a \<le> k b) xs" "x \<in> set xs"
  shows "k x \<le> k (last xs)"
  using assms
proof (induction xs)
  case Nil
  then show ?case by simp
next
  case (Cons y ys)
  then show ?case by (cases ys) auto
qed

lemma sorted_wrt_hd_min:
  fixes k :: "'a \<Rightarrow> int"
  assumes "sorted_wrt (\<lambda>a b. k a \<le> k b) xs" "x \<in> set xs"
  shows "k (hd xs) \<le> k x"
  using assms by (cases xs) auto

lemma sortCards_sorted: "sorted_wrt (\<lambda>a b. getCardValue a \<le> getCardValue b) (sortCards xs)"
  unfolding sortCards_def by (rule sorted_sort_cmp_key)

lemma set_sortCards: "set (sortCards xs) = set xs"
  by (simp add: sortCards_def set_sort_cmp)

lemma winningCardInTrick_None:
  "winningCardInTrick s ls = None \<longleftrightarrow> (\<forall>tc\<in>set (currentTrick s). suit (card tc) \<noteq> ls)"
proof -
  let ?f = "filter (\<lambda>tc. suit (card tc) = ls) (currentTrick s)"
  let ?srt = "sort_cmp (\<lambda>a b. getCardValue (card b) - getCardValue (card a)) ?f"
  have "winningCardInTrick s ls = None \<longleftrightarrow> ?srt = []"
    by (simp add: winningCardInTrick_def nth_opt_def)
  also have "\<dots> \<longleftrightarrow> set ?srt = {}" by simp
  also have "\<dots> \<longleftrightarrow> set ?f = {}" by (simp only: set_sort_cmp)
  also have "\<dots> \<longleftrightarrow> (\<forall>tc\<in>set (currentTrick s). suit (card tc) \<noteq> ls)"
    by (auto simp: filter_empty_conv)
  finally show ?thesis .
qed

lemma winningCardInTrick_Some:
  assumes "winningCardInTrick s ls = Some w"
  shows "(\<exists>tc\<in>set (currentTrick s). suit (card tc) = ls \<and> card tc = w)
       \<and> (\<forall>tc\<in>set (currentTrick s). suit (card tc) = ls \<longrightarrow>
             getCardValue (card tc) \<le> getCardValue w)"
proof -
  let ?f = "filter (\<lambda>tc. suit (card tc) = ls) (currentTrick s)"
  let ?k = "\<lambda>tc. - getCardValue (card tc)"
  let ?srt = "sort_cmp (\<lambda>a b. getCardValue (card b) - getCardValue (card a)) ?f"
  have cmp: "(\<lambda>a b. getCardValue (card b) - getCardValue (card a)) = (\<lambda>a b. ?k a - ?k b)"
    by (intro ext) simp
  have srt: "sorted_wrt (\<lambda>a b. ?k a \<le> ?k b) ?srt"
    unfolding cmp by (rule sorted_sort_cmp_key)
  from assms have ne: "?srt \<noteq> []" and w: "w = card (hd ?srt)"
    by (auto simp: winningCardInTrick_def nth_opt_def hd_conv_nth split: if_splits)
  have st: "set ?srt = set ?f" by (rule set_sort_cmp)
  from ne have "hd ?srt \<in> set ?srt" by simp
  then have hm: "hd ?srt \<in> set ?f" by (simp only: st)
  have mx: "getCardValue (card tc) \<le> getCardValue w"
    if "tc \<in> set (currentTrick s)" "suit (card tc) = ls" for tc
  proof -
    from that have "tc \<in> set ?f" by simp
    then have "tc \<in> set ?srt" by (simp only: st)
    from sorted_wrt_hd_min [OF srt this] w show ?thesis by simp
  qed
  from hm w mx show ?thesis by auto
qed


lemma winningHandCards_beats:
  "(case winningCardInTrick s ls of
      Some w \<Rightarrow> filter (\<lambda>c. getCardValue c > getCardValue w) follow
    | None \<Rightarrow> follow) = filter (beatsTrick s ls) follow"
proof (cases "winningCardInTrick s ls")
  case None
  then have "beatsTrick s ls c" for c
    by (simp add: winningCardInTrick_None beatsTrick_def)
  with None show ?thesis by simp
next
  case (Some w)
  from winningCardInTrick_Some [OF Some] obtain tw
    where tw: "tw \<in> set (currentTrick s)" "suit (card tw) = ls" "card tw = w"
      and mx: "\<forall>tc\<in>set (currentTrick s). suit (card tc) = ls \<longrightarrow>
             getCardValue (card tc) \<le> getCardValue w"
    by blast
  have "beatsTrick s ls c \<longleftrightarrow> getCardValue c > getCardValue w" for c
  proof
    assume "beatsTrick s ls c"
    with tw show "getCardValue c > getCardValue w" by (auto simp: beatsTrick_def)
  next
    assume g: "getCardValue c > getCardValue w"
    show "beatsTrick s ls c" unfolding beatsTrick_def
    proof (intro ballI impI)
      fix tc assume "tc \<in> set (currentTrick s)" "suit (card tc) = ls"
      with mx have "getCardValue (card tc) \<le> getCardValue w" by blast
      with g show "getCardValue (card tc) < getCardValue c" by simp
    qed
  qed
  then have "beatsTrick s ls = (\<lambda>c. getCardValue c > getCardValue w)" by (intro ext)
  with Some show ?thesis by simp
qed

text \<open>
  Claim C2, as the code has it. When a lead suit is set and the acting player holds a
  card of it, the heuristic plays a lead-suit card of that player's hand. If some
  lead-suit card of the hand beats the trick, it plays the highest-valued lead-suit card
  of the hand, and that card beats the trick; otherwise it plays the lowest-valued
  lead-suit card of the hand.
\<close>

theorem autoPlay_follows_suit:
  assumes "leadSuit s = Some ls" and "currentPlayerId s = pid"
    and "find_first (\<lambda>p. id_user p = pid) (players s) = Some player"
    and "\<exists>c\<in>set (hand player). suit c = ls"
  shows "\<exists>c. autoPlayCard s pid r = Inr (Some c)
      \<and> c \<in> set (hand player) \<and> suit c = ls
      \<and> ((\<exists>h\<in>set (hand player). suit h = ls \<and> beatsTrick s ls h) \<longrightarrow>
            beatsTrick s ls c
          \<and> (\<forall>h\<in>set (hand player). suit h = ls \<longrightarrow> getCardValue h \<le> getCardValue c))
      \<and> (\<not> (\<exists>h\<in>set (hand player). suit h = ls \<and> beatsTrick s ls h) \<longrightarrow>
            (\<forall>h\<in>set (hand player). suit h = ls \<longrightarrow> getCardValue c \<le> getCardValue h))"
proof -
  define F where "F = sortCards (filter (\<lambda>c. suit c = ls) (hand player))"
  define W where "W = filter (beatsTrick s ls) F"
  have setF: "set F = {c \<in> set (hand player). suit c = ls}"
    by (simp add: F_def set_sortCards)
  have srtF: "sorted_wrt (\<lambda>a b. getCardValue a \<le> getCardValue b) F"
    unfolding F_def by (rule sortCards_sorted)
  from assms(4) have "set F \<noteq> {}" by (auto simp: setF)
  then have Fne: "F \<noteq> []" by auto
  from assms(4) have hne: "hand player \<noteq> []" by auto
  have srtW: "sorted_wrt (\<lambda>a b. getCardValue a \<le> getCardValue b) W"
    unfolding W_def using srtF by (rule sorted_wrt_filter)
  have res: "autoPlayCard s pid r
               = Inr (Some (if length W > 0 then W ! (length W - 1) else F ! 0))"
    using assms(1-3) hne Fne
    by (simp add: autoPlayCard_def Let_def winningHandCards_beats F_def [symmetric]
        W_def [symmetric])
  show ?thesis
  proof (cases "W = []")
    case True
    have c: "autoPlayCard s pid r = Inr (Some (hd F))"
      using res True Fne by (simp add: hd_conv_nth)
    have m: "hd F \<in> set F" using Fne by simp
    have no: "\<not> (\<exists>h\<in>set (hand player). suit h = ls \<and> beatsTrick s ls h)"
    proof
      assume "\<exists>h\<in>set (hand player). suit h = ls \<and> beatsTrick s ls h"
      then obtain h where "h \<in> set F" "beatsTrick s ls h" by (auto simp: setF)
      then have "h \<in> set W" by (simp add: W_def)
      with True show False by simp
    qed
    have lo: "\<forall>h\<in>set (hand player). suit h = ls \<longrightarrow> getCardValue (hd F) \<le> getCardValue h"
    proof (intro ballI impI)
      fix h assume "h \<in> set (hand player)" "suit h = ls"
      then have "h \<in> set F" by (simp add: setF)
      with srtF show "getCardValue (hd F) \<le> getCardValue h" by (rule sorted_wrt_hd_min)
    qed
    from c m no lo show ?thesis by (auto simp: setF)
  next
    case False
    have c: "autoPlayCard s pid r = Inr (Some (last W))"
      using res False by (simp add: last_conv_nth)
    have mW: "last W \<in> set W" using False by simp
    then have mF: "last W \<in> set F" and b: "beatsTrick s ls (last W)" by (simp_all add: W_def)
    have hi: "\<forall>h\<in>set (hand player). suit h = ls \<longrightarrow> getCardValue h \<le> getCardValue (last W)"
    proof (intro ballI impI)
      fix h assume "h \<in> set (hand player)" "suit h = ls"
      then have hF: "h \<in> set F" by (simp add: setF)
      show "getCardValue h \<le> getCardValue (last W)"
      proof (cases "beatsTrick s ls h")
        case True
        with hF have "h \<in> set W" by (simp add: W_def)
        with srtW show ?thesis by (rule sorted_wrt_last_max)
      next
        case nb: False
        then obtain tc where tc: "tc \<in> set (currentTrick s)" "suit (card tc) = ls"
          "getCardValue h \<le> getCardValue (card tc)"
          by (auto simp: beatsTrick_def not_less)
        from b tc(1,2) have "getCardValue (card tc) < getCardValue (last W)"
          by (simp add: beatsTrick_def)
        with tc(3) show ?thesis by simp
      qed
    qed
    have ex: "\<exists>h\<in>set (hand player). suit h = ls \<and> beatsTrick s ls h"
      using mF b by (auto simp: setF)
    from c mF b hi ex show ?thesis by (auto simp: setF)
  qed
qed

theorem autoPlay_follows_suit_witness:
  "leadSuit exampleGame = Some Hearts \<and> currentPlayerId exampleGame = ''B''
   \<and> find_first (\<lambda>p. id_user p = ''B'') (players exampleGame) = Some playerB
   \<and> (\<exists>c\<in>set (hand playerB). suit c = Hearts)
   \<and> beatsTrick exampleGame Hearts \<lparr>suit = Hearts, rank = R3\<rparr>
   \<and> \<lparr>suit = Hearts, rank = R3\<rparr> \<in> set (hand playerB)
   \<and> (\<exists>c. autoPlayCard exampleGame ''B'' 0 = Inr (Some c) \<and> c \<in> set (hand playerB)
          \<and> suit c = Hearts \<and> beatsTrick exampleGame Hearts c
          \<and> getCardValue \<lparr>suit = Hearts, rank = RK\<rparr> \<le> getCardValue c)"
proof -
  have a1: "leadSuit exampleGame = Some Hearts" "currentPlayerId exampleGame = ''B''"
    by (simp_all add: exampleGame_def)
  have a3: "find_first (\<lambda>p. id_user p = ''B'') (players exampleGame) = Some playerB"
    by (simp add: exampleGame_def playerA_def playerB_def)
  have a4: "\<exists>c\<in>set (hand playerB). suit c = Hearts" by (simp add: playerB_def)
  have b3: "beatsTrick exampleGame Hearts \<lparr>suit = Hearts, rank = R3\<rparr>"
    by (simp add: beatsTrick_def exampleGame_def getCardValue_def)
  have m3: "\<lparr>suit = Hearts, rank = R3\<rparr> \<in> set (hand playerB)" by (simp add: playerB_def)
  have mk: "\<lparr>suit = Hearts, rank = RK\<rparr> \<in> set (hand playerB)" by (simp add: playerB_def)
  from autoPlay_follows_suit [OF a1 a3 a4, of 0] obtain c
    where c: "autoPlayCard exampleGame ''B'' 0 = Inr (Some c)" "c \<in> set (hand playerB)"
      "suit c = Hearts"
      and hi: "(\<exists>h\<in>set (hand playerB). suit h = Hearts \<and> beatsTrick exampleGame Hearts h) \<longrightarrow>
            beatsTrick exampleGame Hearts c
          \<and> (\<forall>h\<in>set (hand playerB). suit h = Hearts \<longrightarrow> getCardValue h \<le> getCardValue c)"
    by (elim exE conjE)
  from hi b3 m3 have "beatsTrick exampleGame Hearts c"
    and "\<forall>h\<in>set (hand playerB). suit h = Hearts \<longrightarrow> getCardValue h \<le> getCardValue c"
    by auto
  with mk c a1 a3 a4 b3 m3 show ?thesis by auto
qed

text \<open>
  The claim as stated fails: holding the three and the king of hearts against the two of
  hearts, the heuristic plays the king, although the three already beats the trick.
\<close>

theorem autoPlay_lowest_beating_counterexample:
  "leadSuit exampleGame = Some Hearts \<and> currentPlayerId exampleGame = ''B''
   \<and> find_first (\<lambda>p. id_user p = ''B'') (players exampleGame) = Some playerB
   \<and> currentTrick exampleGame = [\<lparr>playerId = ''A'', card = \<lparr>suit = Hearts, rank = R2\<rparr>\<rparr>]
   \<and> \<lparr>suit = Hearts, rank = R3\<rparr> \<in> set (hand playerB)
   \<and> getCardValue \<lparr>suit = Hearts, rank = R2\<rparr> < getCardValue \<lparr>suit = Hearts, rank = R3\<rparr>
   \<and> getCardValue \<lparr>suit = Hearts, rank = R3\<rparr> < getCardValue \<lparr>suit = Hearts, rank = RK\<rparr>
   \<and> autoPlayCard exampleGame ''B'' 0 = Inr (Some \<lparr>suit = Hearts, rank = RK\<rparr>)"
proof -
  have "autoPlayCard exampleGame ''B'' 0 = Inr (Some \<lparr>suit = Hearts, rank = RK\<rparr>)"
    by code_simp
  then show ?thesis
    by (simp add: exampleGame_def playerA_def playerB_def getCardValue_def)
qed

end
